theory Spec2Isabelle
  imports Complex_Main "HOL-Library.Monad_Syntax" "HOL-Library.Word" "HOL-Library.Multiset"
begin

unbundle bit_operations_syntax

section \<open>Conventions of the embedding\<close>

text \<open>
  The development embeds the environment builders of \<^verbatim>\<open>flare/env.py\<close> and the
  kernels of \<^verbatim>\<open>flare/kernels/mc_simple.py\<close>.

  \<^item> A \<^verbatim>\<open>float64\<close> is a \<^typ>\<open>real\<close>: rounding, overflow and NaN are outside the model.
  \<^item> A Python \<^verbatim>\<open>int\<close> is an \<^typ>\<open>int\<close>; a value stored into an \<^verbatim>\<open>np.int8\<close> array goes
    through \<open>int8\<close> below (wrap-around of an 8-bit two's complement word).
  \<^item> A call that may raise returns an \<^typ>\<open>'a option\<close>: \<open>None\<close> stands for a raised
    exception (\<^verbatim>\<open>IndexError\<close>, \<^verbatim>\<open>KeyError\<close>, \<^verbatim>\<open>ZeroDivisionError\<close>, \<^verbatim>\<open>ValueError\<close>),
    \<open>Some v\<close> for the returned value \<open>v\<close>.
  \<^item> One-dimensional arrays are lists; two-dimensional arrays are lists of rows. A row of a
    bond array (shape \<open>(n, 4)\<close>) is a pair of the distance (column 0) and the unit direction
    (columns 1 to 3); a row of a position array (shape \<open>(n, 3)\<close>) is a triple.
  \<^item> \<^verbatim>\<open>ndarray.argsort()\<close> is a library routine, called with its default \<^verbatim>\<open>kind\<close>. It is a
    parameter \<open>argsort\<close> of the builders; what the library promises of it is \<open>argsort_spec\<close>.
\<close>

subsection \<open>Indexing, division, fixed-width storage\<close>

definition py_get :: "'a list \<Rightarrow> int \<Rightarrow> 'a option" where
  \<comment> \<open>\<^verbatim>\<open>xs[i]\<close>: a negative index counts from the end, an index out of range raises.\<close>
  "py_get xs i =
     (let n = int (length xs); j = (if i < 0 then n + i else i)
      in if 0 \<le> j \<and> j < n then Some (xs ! nat j) else None)"

definition py_get2 :: "'a list list \<Rightarrow> int \<Rightarrow> int \<Rightarrow> 'a option" where
  \<comment> \<open>\<^verbatim>\<open>a[i, j]\<close> on a two-dimensional array\<close>
  "py_get2 a i j = do { row \<leftarrow> py_get a i; py_get row j }"

definition py_take :: "'a list \<Rightarrow> nat list \<Rightarrow> 'a list option" where
  "py_take xs inds = those (map (\<lambda>i. py_get xs (int i)) inds)"

definition py_div :: "real \<Rightarrow> real \<Rightarrow> real option" where
  \<comment> \<open>\<^verbatim>\<open>a / b\<close> on floats: a zero divisor raises\<close>
  "py_div a b = (if b = 0 then None else Some (a / b))"

definition py_range :: "int \<Rightarrow> int list" where
  \<comment> \<open>\<^verbatim>\<open>range(k)\<close>; empty for \<open>k \<le> 0\<close>\<close>
  "py_range k = map int [0..<nat k]"

definition py_max :: "real list \<Rightarrow> real option" where
  "py_max xs = (case xs of [] \<Rightarrow> None | x # rest \<Rightarrow> Some (fold max rest x))"

definition int8 :: "int \<Rightarrow> int" where
  \<comment> \<open>the value read back after a store into an \<^verbatim>\<open>np.int8\<close> array\<close>
  "int8 v = sint (word_of_int v :: 8 word)"

section \<open>The kernel registry\<close>

text \<open>
  The dictionary \<^verbatim>\<open>_str_to_kernel\<close> at the end of \<^verbatim>\<open>mc_simple.py\<close> maps names to function
  objects. \<open>kernel_ref\<close> has one constructor per function that occurs as a value.
\<close>

datatype kernel_ref =
    Ref_two_body_mc | Ref_two_body_mc_en | Ref_two_body_mc_grad | Ref_two_body_mc_force_en
  | Ref_three_body_mc | Ref_three_body_mc_grad | Ref_three_body_mc_en
  | Ref_three_body_mc_force_en
  | Ref_two_plus_three_body_mc | Ref_two_plus_three_body_mc_grad
  | Ref_two_plus_three_mc_en | Ref_two_plus_three_mc_force_en
  | Ref_many_2body_mc | Ref_many_2body_mc_en | Ref_many_2body_mc_grad
  | Ref_many_2body_mc_force_en
  | Ref_many_body_mc | Ref_many_body_mc_en | Ref_many_body_mc_grad
  | Ref_many_body_mc_force_en
  | Ref_two_plus_three_plus_many_body_mc | Ref_two_plus_three_plus_many_body_mc_grad
  | Ref_two_plus_three_plus_many_body_mc_en | Ref_two_plus_three_plus_many_body_mc_force_en

definition str_to_kernel_items :: "(string \<times> kernel_ref) list" where
  "str_to_kernel_items =
    [(''two_body_mc'', Ref_two_body_mc),
     (''two_body_mc_en'', Ref_two_body_mc_en),
     (''two_body_mc_grad'', Ref_two_body_mc_grad),
     (''two_body_mc_force_en'', Ref_two_body_mc_force_en),
     (''three_body_mc'', Ref_three_body_mc),
     (''three_body_mc_grad'', Ref_three_body_mc_grad),
     (''three_body_mc_en'', Ref_three_body_mc_en),
     (''three_body_mc_force_en'', Ref_three_body_mc_force_en),
     (''two_plus_three_body_mc'', Ref_two_plus_three_body_mc),
     (''two_plus_three_body_mc_grad'', Ref_two_plus_three_body_mc_grad),
     (''two_plus_three_mc_en'', Ref_two_plus_three_mc_en),
     (''two_plus_three_mc_force_en'', Ref_two_plus_three_mc_force_en),
     (''2'', Ref_two_body_mc),
     (''2_en'', Ref_two_body_mc_en),
     (''2_grad'', Ref_two_body_mc_grad),
     (''2_force_en'', Ref_two_body_mc_force_en),
     (''3'', Ref_three_body_mc),
     (''3_grad'', Ref_three_body_mc_grad),
     (''3_en'', Ref_three_body_mc_en),
     (''3_force_en'', Ref_three_body_mc_force_en),
     (''2+3'', Ref_two_plus_three_body_mc),
     (''2+3_grad'', Ref_two_plus_three_body_mc_grad),
     (''2+3_en'', Ref_two_plus_three_mc_en),
     (''2+3_force_en'', Ref_two_plus_three_mc_force_en),
     (''many_2body_mc'', Ref_many_2body_mc),
     (''many_2body_mc_en'', Ref_many_2body_mc_en),
     (''many_2body_mc_grad'', Ref_many_2body_mc_grad),
     (''many_2body_mc_force_en'', Ref_many_2body_mc_force_en),
     (''many_3body_mc'', Ref_many_2body_mc),
     (''many_3body_mc_en'', Ref_many_2body_mc_en),
     (''many_3body_mc_grad'', Ref_many_2body_mc_grad),
     (''many_3body_mc_force_en'', Ref_many_2body_mc_force_en),
     (''many'', Ref_many_body_mc),
     (''many_en'', Ref_many_body_mc_en),
     (''many_grad'', Ref_many_body_mc_grad),
     (''many_force_en'', Ref_many_body_mc_force_en),
     (''two_plus_three_plus_many_body_mc'', Ref_two_plus_three_plus_many_body_mc),
     (''two_plus_three_plus_many_body_mc_grad'', Ref_two_plus_three_plus_many_body_mc_grad),
     (''two_plus_three_plus_many_body_mc_en'', Ref_two_plus_three_plus_many_body_mc_en),
     (''two_plus_three_plus_many_body_mc_force_en'',
        Ref_two_plus_three_plus_many_body_mc_force_en),
     (''2+3+many'', Ref_two_plus_three_plus_many_body_mc),
     (''2+3+many_grad'', Ref_two_plus_three_plus_many_body_mc_grad),
     (''2+3+many_en'', Ref_two_plus_three_plus_many_body_mc_en),
     (''2+3+many_force_en'', Ref_two_plus_three_plus_many_body_mc_force_en)]"

definition str_to_kernel :: "string \<Rightarrow> kernel_ref option" where
  \<comment> \<open>\<^verbatim>\<open>_str_to_kernel[name]\<close>; \<open>None\<close> is the \<^verbatim>\<open>KeyError\<close> of an absent key\<close>
  "str_to_kernel name = map_of str_to_kernel_items name"

text \<open>
  The four variants registered for a base name: the force/force kernel under the name itself and
  the gradient, energy/energy and force/energy kernels under the suffixed names.
\<close>

definition kernel_set ::
  "string \<Rightarrow> kernel_ref option \<times> kernel_ref option \<times> kernel_ref option \<times> kernel_ref option"
where
  "kernel_set name =
     (str_to_kernel name, str_to_kernel (name @ ''_grad''),
      str_to_kernel (name @ ''_en''), str_to_kernel (name @ ''_force_en''))"

section \<open>Geometry\<close>

type_synonym vec3 = "real \<times> real \<times> real"

fun vadd :: "vec3 \<Rightarrow> vec3 \<Rightarrow> vec3" where
  "vadd (a, b, c) (x, y, z) = (a + x, b + y, c + z)"

fun vsub :: "vec3 \<Rightarrow> vec3 \<Rightarrow> vec3" where
  "vsub (a, b, c) (x, y, z) = (a - x, b - y, c - z)"

fun smul :: "real \<Rightarrow> vec3 \<Rightarrow> vec3" where
  "smul k (x, y, z) = (k * x, k * y, k * z)"

fun vdiv :: "vec3 \<Rightarrow> real \<Rightarrow> vec3" where
  "vdiv (x, y, z) d = (x / d, y / d, z / d)"

fun norm3 :: "vec3 \<Rightarrow> real" where
  "norm3 (x, y, z) = sqrt (x * x + y * y + z * z)"

definition zero3 :: vec3 where
  "zero3 = (0, 0, 0)"

type_synonym cell = "vec3 \<times> vec3 \<times> vec3"

definition cubic :: "real \<Rightarrow> cell" where
  "cubic a = ((a, 0, 0), (0, a, 0), (0, 0, a))"

type_synonym bond_row = "real \<times> vec3"

section \<open>The periodic neighbour enumerator\<close>

text \<open>
  \<^verbatim>\<open>get_2_body_arrays\<close> returns four parallel arrays.
\<close>

record two_body_arrays =
  bond_array_2 :: "bond_row list"
  bond_positions_2 :: "vec3 list"
  etypes :: "int list"
  bond_indices :: "int list"

text \<open>
  The image loop of the first pass, for one atom \<open>n\<close>:
  \<^verbatim>\<open>
  for s1 in sweep:
      for s2 in sweep:
          for s3 in sweep:
              im = diff_curr + s1 * vec1 + s2 * vec2 + s3 * vec3
              dist = sqrt(im[0] * im[0] + im[1] * im[1] + im[2] * im[2])
              if (dist < cutoff_2) and (dist != 0):
                  dists[n, im_count] = dist
                  coords[n, :, im_count] = im
                  cutoff_count += 1
              im_count += 1
  \<close>
  \<open>record_images\<close> runs it over the list of image shifts, on row \<open>n\<close> of \<^verbatim>\<open>dists\<close> and
  \<^verbatim>\<open>coords\<close> (one list of pairs, initially zero). A write beyond the row raises. The row has
  \<open>len(sweep)\<^sup>3\<close> columns in \<^verbatim>\<open>get_2_body_arrays\<close> and 27 columns in
  \<^verbatim>\<open>get_2_body_arrays_sepcut\<close>.
\<close>

definition image_shifts :: "int list \<Rightarrow> (int \<times> int \<times> int) list" where
  "image_shifts sweep =
     concat (map (\<lambda>s1. concat (map (\<lambda>s2. map (\<lambda>s3. (s1, s2, s3)) sweep) sweep)) sweep)"

fun image :: "vec3 \<Rightarrow> cell \<Rightarrow> int \<times> int \<times> int \<Rightarrow> vec3" where
  "image diff_curr (vec1, vec2, vec3) (s1, s2, s3) =
     vadd (vadd (vadd diff_curr (smul (real_of_int s1) vec1)) (smul (real_of_int s2) vec2))
          (smul (real_of_int s3) vec3)"

fun record_images ::
  "real \<Rightarrow> vec3 \<Rightarrow> cell \<Rightarrow> (int \<times> int \<times> int) list \<Rightarrow> nat \<Rightarrow> (real \<times> vec3) list
     \<Rightarrow> (real \<times> vec3) list option"
where
  "record_images rcut diff_curr cell [] im_count row = Some row"
| "record_images rcut diff_curr cell (s # ss) im_count row =
     (let im = image diff_curr cell s; dist = norm3 im in
      if dist < rcut \<and> dist \<noteq> 0 then
        (if im_count < length row
         then record_images rcut diff_curr cell ss (Suc im_count) (row[im_count := (dist, im)])
         else None)
      else record_images rcut diff_curr cell ss (Suc im_count) row)"

text \<open>
  The second pass appends one bond per recorded image to the four arrays:
  \<^verbatim>\<open>
  for m in range(noa):
      spec_curr = species[m]
      for n in range(super_count):
          dist_curr = dists[m, n]
          if (dist_curr < cutoff_2) and (dist_curr != 0):
              coord = coords[m, :, n]
              bond_array_2[bond_count, 0] = dist_curr
              bond_array_2[bond_count, 1:4] = coord / dist_curr
              bond_positions_2[bond_count, :] = coord
              etypes[bond_count] = spec_curr
              bond_indices[bond_count] = m
              bond_count += 1
  \<close>
  A \<open>bond\<close> is the tuple of the four entries written at one \<^verbatim>\<open>bond_count\<close>. The arrays
  \<^verbatim>\<open>etypes\<close> and \<^verbatim>\<open>bond_indices\<close> have \<^verbatim>\<open>dtype=np.int8\<close>. The arrays are allocated with
  \<^verbatim>\<open>cutoff_count\<close> rows; the second pass applies the test of the first pass to the values the
  first pass stored, so it writes exactly \<^verbatim>\<open>cutoff_count\<close> rows.
\<close>

type_synonym bond = "bond_row \<times> vec3 \<times> int \<times> int"

definition fill_row :: "real \<Rightarrow> int \<Rightarrow> int \<Rightarrow> (real \<times> vec3) list \<Rightarrow> bond list" where
  "fill_row rcut spec_curr m row =
     map (\<lambda>(dist_curr, coord). ((dist_curr, vdiv coord dist_curr), coord, int8 spec_curr, int8 m))
       (filter (\<lambda>(dist_curr, coord). dist_curr < rcut \<and> dist_curr \<noteq> 0) row)"

fun record_all ::
  "real \<Rightarrow> vec3 \<Rightarrow> cell \<Rightarrow> int list \<Rightarrow> vec3 list \<Rightarrow> (real \<times> vec3) list list option"
where
  "record_all cutoff_2 pos_atom cell sweep [] = Some []"
| "record_all cutoff_2 pos_atom cell sweep (pos_n # rest) = do {
     let super_count = length sweep ^ 3;
     row \<leftarrow> record_images cutoff_2 (vsub pos_n pos_atom) cell (image_shifts sweep) 0
              (replicate super_count (0, zero3));
     rows \<leftarrow> record_all cutoff_2 pos_atom cell sweep rest;
     Some (row # rows)
   }"

fun fill_all :: "real \<Rightarrow> int list \<Rightarrow> nat \<Rightarrow> (real \<times> vec3) list list \<Rightarrow> bond list option" where
  "fill_all cutoff_2 species m [] = Some []"
| "fill_all cutoff_2 species m (row # rows) = do {
     spec_curr \<leftarrow> py_get species (int m);
     rest \<leftarrow> fill_all cutoff_2 species (Suc m) rows;
     Some (fill_row cutoff_2 spec_curr (int m) row @ rest)
   }"

text \<open>
  The last stage sorts by distance, all four arrays through the same index array:
  \<^verbatim>\<open>
  sort_inds = bond_array_2[:, 0].argsort()
  bond_array_2 = bond_array_2[sort_inds]
  bond_positions_2 = bond_positions_2[sort_inds]
  bond_indices = bond_indices[sort_inds]
  etypes = etypes[sort_inds]
  \<close>
\<close>

definition sort_arrays :: "(real list \<Rightarrow> nat list) \<Rightarrow> bond list \<Rightarrow> two_body_arrays option" where
  "sort_arrays argsort filled = do {
     let bond_array_2 = map fst filled;
     let bond_positions_2 = map (fst \<circ> snd) filled;
     let etypes = map (fst \<circ> snd \<circ> snd) filled;
     let bond_indices = map (snd \<circ> snd \<circ> snd) filled;
     let sort_inds = argsort (map fst bond_array_2);
     bond_array_2 \<leftarrow> py_take bond_array_2 sort_inds;
     bond_positions_2 \<leftarrow> py_take bond_positions_2 sort_inds;
     bond_indices \<leftarrow> py_take bond_indices sort_inds;
     etypes \<leftarrow> py_take etypes sort_inds;
     Some \<lparr>bond_array_2 = bond_array_2, bond_positions_2 = bond_positions_2,
           etypes = etypes, bond_indices = bond_indices\<rparr>
   }"

definition fill_2_body ::
  "vec3 list \<Rightarrow> int \<Rightarrow> cell \<Rightarrow> real \<Rightarrow> int list \<Rightarrow> int list \<Rightarrow> bond list option"
where
  "fill_2_body positions atom cell cutoff_2 species sweep = do {
     pos_atom \<leftarrow> py_get positions atom;
     table \<leftarrow> record_all cutoff_2 pos_atom cell sweep positions;
     fill_all cutoff_2 species 0 table
   }"

definition get_2_body_arrays ::
  "(real list \<Rightarrow> nat list) \<Rightarrow> vec3 list \<Rightarrow> int \<Rightarrow> cell \<Rightarrow> real \<Rightarrow> int list \<Rightarrow> int list
     \<Rightarrow> two_body_arrays option"
where
  "get_2_body_arrays argsort positions atom cell cutoff_2 species sweep = do {
     filled \<leftarrow> fill_2_body positions atom cell cutoff_2 species sweep;
     sort_arrays argsort filled
   }"

subsection \<open>Species-pair-resolved cutoffs\<close>

text \<open>
  \<^verbatim>\<open>get_2_body_arrays_sepcut\<close> resolves the cutoff of atom \<open>n\<close> in both passes by
  \<^verbatim>\<open>
  bn = specie_mask[species[n]]
  rcut = cutoff_2[bond_mask[bn+bcn]]
  \<close>
  and allocates \<^verbatim>\<open>dists\<close> and \<^verbatim>\<open>coords\<close> with 27 columns whatever the sweep.
\<close>

definition resolve_cutoff :: "real list \<Rightarrow> int list \<Rightarrow> int list \<Rightarrow> int list \<Rightarrow> int \<Rightarrow> int \<Rightarrow> real option"
where
  "resolve_cutoff cutoff_2 species specie_mask bond_mask bcn n = do {
     sn \<leftarrow> py_get species n;
     bn \<leftarrow> py_get specie_mask sn;
     btype \<leftarrow> py_get bond_mask (bn + bcn);
     py_get cutoff_2 btype
   }"

fun record_all_sepcut ::
  "real list \<Rightarrow> int list \<Rightarrow> int list \<Rightarrow> int list \<Rightarrow> int \<Rightarrow> vec3 \<Rightarrow> cell \<Rightarrow> int list \<Rightarrow> nat
     \<Rightarrow> vec3 list \<Rightarrow> (real \<times> vec3) list list option"
where
  "record_all_sepcut cutoff_2 species specie_mask bond_mask bcn pos_atom cell sweep n [] = Some []"
| "record_all_sepcut cutoff_2 species specie_mask bond_mask bcn pos_atom cell sweep n (pos_n # rest) =
   do {
     rcut \<leftarrow> resolve_cutoff cutoff_2 species specie_mask bond_mask bcn (int n);
     row \<leftarrow> record_images rcut (vsub pos_n pos_atom) cell (image_shifts sweep) 0
              (replicate 27 (0, zero3));
     rows \<leftarrow> record_all_sepcut cutoff_2 species specie_mask bond_mask bcn pos_atom cell sweep
               (Suc n) rest;
     Some (row # rows)
   }"

fun fill_all_sepcut ::
  "real list \<Rightarrow> int list \<Rightarrow> int list \<Rightarrow> int list \<Rightarrow> int \<Rightarrow> nat \<Rightarrow> (real \<times> vec3) list list
     \<Rightarrow> bond list option"
where
  "fill_all_sepcut cutoff_2 species specie_mask bond_mask bcn m [] = Some []"
| "fill_all_sepcut cutoff_2 species specie_mask bond_mask bcn m (row # rows) = do {
     spec_curr \<leftarrow> py_get species (int m);
     rcut \<leftarrow> resolve_cutoff cutoff_2 species specie_mask bond_mask bcn (int m);
     rest \<leftarrow> fill_all_sepcut cutoff_2 species specie_mask bond_mask bcn (Suc m) rows;
     Some (fill_row rcut spec_curr (int m) row @ rest)
   }"

definition fill_2_body_sepcut ::
  "vec3 list \<Rightarrow> int \<Rightarrow> cell \<Rightarrow> real list \<Rightarrow> int list \<Rightarrow> int list \<Rightarrow> int \<Rightarrow> int list \<Rightarrow> int list
     \<Rightarrow> bond list option"
where
  "fill_2_body_sepcut positions atom cell cutoff_2 species sweep nspecie specie_mask bond_mask = do {
     pos_atom \<leftarrow> py_get positions atom;
     sa \<leftarrow> py_get species atom;
     bc \<leftarrow> py_get specie_mask sa;
     let bcn = nspecie * bc;
     table \<leftarrow> record_all_sepcut cutoff_2 species specie_mask bond_mask bcn pos_atom cell sweep 0
                positions;
     fill_all_sepcut cutoff_2 species specie_mask bond_mask bcn 0 table
   }"

definition get_2_body_arrays_sepcut ::
  "(real list \<Rightarrow> nat list) \<Rightarrow> vec3 list \<Rightarrow> int \<Rightarrow> cell \<Rightarrow> real list \<Rightarrow> int list \<Rightarrow> int list
     \<Rightarrow> int \<Rightarrow> int list \<Rightarrow> int list \<Rightarrow> two_body_arrays option"
where
  "get_2_body_arrays_sepcut argsort positions atom cell cutoff_2 species sweep
       nspecie specie_mask bond_mask = do {
     filled \<leftarrow> fill_2_body_sepcut positions atom cell cutoff_2 species sweep
                 nspecie specie_mask bond_mask;
     sort_arrays argsort filled
   }"

section \<open>The triplet cross-bond builder\<close>

record three_body_arrays =
  bond_array_3 :: "bond_row list"
  cross_bond_inds :: "int list list"
  cross_bond_dists :: "real list list"
  triplet_counts :: "int list"

text \<open>
  The truncation index of \<^verbatim>\<open>get_3_body_arrays\<close>:
  \<^verbatim>\<open>
  ind_3 = -1
  noa = bond_array_2.shape[0]
  for count, dist in enumerate(bond_array_2[:, 0]):
      if dist > cutoff_3:
          ind_3 = count
          break
  if ind_3 == -1:
      ind_3 = noa
  \<close>
\<close>

fun first_above :: "real \<Rightarrow> real list \<Rightarrow> nat \<Rightarrow> int" where
  "first_above cutoff_3 [] cnt = - 1"
| "first_above cutoff_3 (dist0 # rest) cnt =
     (if dist0 > cutoff_3 then int cnt else first_above cutoff_3 rest (Suc cnt))"

text \<open>
  Both builders fill the table with the same pair of loops; they differ in what is looked up for
  a row \<open>m\<close> and in the test applied to a column \<open>n\<close>. \<open>cross_row\<close> is the inner loop over
  \<open>n\<close>, with the running \<^verbatim>\<open>count\<close> and \<^verbatim>\<open>trips\<close> and row \<open>m\<close> of \<^verbatim>\<open>cross_bond_inds\<close> and
  \<^verbatim>\<open>cross_bond_dists\<close>; \<open>probe n\<close> gives \<^verbatim>\<open>dist_curr\<close> and the outcome of the test, or raises.
  \<open>cross_rows\<close> is the outer loop over \<open>m\<close>; \<open>row_probe m\<close> does the lookups of row \<open>m\<close>.
  The builders are compiled (\<^verbatim>\<open>@njit\<close>). The table starts as
  \<^verbatim>\<open>np.zeros((ind_3, ind_3), dtype=np.int8) - 1\<close>: subtracting the integer literal promotes the
  array to 64-bit integers, so the store \<^verbatim>\<open>cross_bond_inds[m, count] = n\<close> keeps \<open>n\<close> as it is.
  \<^verbatim>\<open>triplet_counts = np.zeros(ind_3, dtype=np.int8)\<close> stays an \<^verbatim>\<open>int8\<close> array, so the store
  \<^verbatim>\<open>triplet_counts[m] = trips\<close> wraps.
\<close>

fun cross_row ::
  "(nat \<Rightarrow> (real \<times> bool) option) \<Rightarrow> nat list \<Rightarrow> nat \<Rightarrow> int \<Rightarrow> int list \<Rightarrow> real list
     \<Rightarrow> (int \<times> int list \<times> real list) option"
where
  "cross_row probe [] cnt trips irow drow = Some (trips, irow, drow)"
| "cross_row probe (n # ns) cnt trips irow drow = do {
     (dist_curr, accept) \<leftarrow> probe n;
     if accept then
       (if cnt < length irow \<and> cnt < length drow
        then cross_row probe ns (Suc cnt) (trips + 1)
               (irow[cnt := int n]) (drow[cnt := dist_curr])
        else None)
     else cross_row probe ns cnt trips irow drow
   }"

fun cross_rows ::
  "(nat \<Rightarrow> (nat \<Rightarrow> (real \<times> bool) option) option) \<Rightarrow> nat \<Rightarrow> nat list
     \<Rightarrow> (int list \<times> int list list \<times> real list list) option"
where
  "cross_rows row_probe ind_3 [] = Some ([], [], [])"
| "cross_rows row_probe ind_3 (m # ms) = do {
     probe \<leftarrow> row_probe m;
     (trips, irow, drow) \<leftarrow>
        cross_row probe [m + 1..<ind_3] (m + 1) 0 (replicate ind_3 (- 1)) (replicate ind_3 0);
     (tc, ci, cd) \<leftarrow> cross_rows row_probe ind_3 ms;
     Some (int8 trips # tc, irow # ci, drow # cd)
   }"

definition probe_scalar :: "vec3 list \<Rightarrow> real \<Rightarrow> vec3 \<Rightarrow> nat \<Rightarrow> (real \<times> bool) option" where
  "probe_scalar bond_positions_3 cutoff_3 pos1 n = do {
     pos2 \<leftarrow> py_get bond_positions_3 (int n);
     let diff = vsub pos2 pos1;
     let dist_curr = norm3 diff;
     Some (dist_curr, dist_curr < cutoff_3)
   }"

definition row_probe_scalar ::
  "vec3 list \<Rightarrow> real \<Rightarrow> nat \<Rightarrow> (nat \<Rightarrow> (real \<times> bool) option) option"
where
  "row_probe_scalar bond_positions_3 cutoff_3 m = do {
     pos1 \<leftarrow> py_get bond_positions_3 (int m);
     Some (probe_scalar bond_positions_3 cutoff_3 pos1)
   }"

definition get_3_body_arrays :: "bond_row list \<Rightarrow> vec3 list \<Rightarrow> real \<Rightarrow> three_body_arrays option" where
  "get_3_body_arrays bond_array_2' bond_positions_2' cutoff_3 = do {
     let noa = length bond_array_2';
     let ind_3 = first_above cutoff_3 (map fst bond_array_2') 0;
     let ind_3 = (if ind_3 = - 1 then int noa else ind_3);
     let bond_array_3 = take (nat ind_3) bond_array_2';
     let bond_positions_3 = take (nat ind_3) bond_positions_2';
     (triplet_counts, cross_bond_inds, cross_bond_dists) \<leftarrow>
        cross_rows (row_probe_scalar bond_positions_3 cutoff_3) (nat ind_3) [0..<nat ind_3];
     Some \<lparr>bond_array_3 = bond_array_3, cross_bond_inds = cross_bond_inds,
           cross_bond_dists = cross_bond_dists, triplet_counts = triplet_counts\<rparr>
   }"

text \<open>
  In \<^verbatim>\<open>get_3_body_arrays_sepcut\<close> the list is truncated at the largest cutoff, and a pair is
  accepted under three tests:
  \<^verbatim>\<open>
  if dist_curr < cut_mn \
          and bond_array_2[m, 0] < cut_m \
          and bond_array_2[n, 0] < cut_n:
  \<close>
\<close>

definition resolve_cut3 :: "real list \<Rightarrow> int list \<Rightarrow> int \<Rightarrow> int \<Rightarrow> real option" where
  "resolve_cut3 cutoff_3 cut3b_mask base b = do {
     btype \<leftarrow> py_get cut3b_mask (b + base);
     py_get cutoff_3 btype
   }"

definition probe_sepcut ::
  "bond_row list \<Rightarrow> vec3 list \<Rightarrow> int list \<Rightarrow> real list \<Rightarrow> int list \<Rightarrow> int list \<Rightarrow> int \<Rightarrow> int
     \<Rightarrow> nat \<Rightarrow> real \<Rightarrow> vec3 \<Rightarrow> nat \<Rightarrow> (real \<times> bool) option"
where
  "probe_sepcut bond_array_2' bond_positions_3 etypes' cutoff_3 specie_mask cut3b_mask bcn bmn
       m cut_m pos1 n = do {
     en \<leftarrow> py_get etypes' (int n);
     bn \<leftarrow> py_get specie_mask en;
     cut_n \<leftarrow> resolve_cut3 cutoff_3 cut3b_mask bcn bn;
     cut_mn \<leftarrow> resolve_cut3 cutoff_3 cut3b_mask bmn bn;
     pos2 \<leftarrow> py_get bond_positions_3 (int n);
     let diff = vsub pos2 pos1;
     let dist_curr = norm3 diff;
     if dist_curr < cut_mn then do {
       row_m \<leftarrow> py_get bond_array_2' (int m);
       if fst row_m < cut_m then do {
         row_n \<leftarrow> py_get bond_array_2' (int n);
         Some (dist_curr, fst row_n < cut_n)
       } else Some (dist_curr, False)
     } else Some (dist_curr, False)
   }"

definition row_probe_sepcut ::
  "bond_row list \<Rightarrow> vec3 list \<Rightarrow> int list \<Rightarrow> real list \<Rightarrow> int \<Rightarrow> int list \<Rightarrow> int list \<Rightarrow> int
     \<Rightarrow> nat \<Rightarrow> (nat \<Rightarrow> (real \<times> bool) option) option"
where
  "row_probe_sepcut bond_array_2' bond_positions_3 etypes' cutoff_3 nspecie specie_mask cut3b_mask
       bcn m = do {
     pos1 \<leftarrow> py_get bond_positions_3 (int m);
     em \<leftarrow> py_get etypes' (int m);
     bm \<leftarrow> py_get specie_mask em;
     cut_m \<leftarrow> resolve_cut3 cutoff_3 cut3b_mask bcn bm;
     let bmn = nspecie * bm;
     Some (probe_sepcut bond_array_2' bond_positions_3 etypes' cutoff_3 specie_mask cut3b_mask
             bcn bmn m cut_m pos1)
   }"

definition get_3_body_arrays_sepcut ::
  "bond_row list \<Rightarrow> vec3 list \<Rightarrow> int \<Rightarrow> int list \<Rightarrow> real list \<Rightarrow> int \<Rightarrow> int list \<Rightarrow> int list
     \<Rightarrow> three_body_arrays option"
where
  "get_3_body_arrays_sepcut bond_array_2' bond_positions_2' ctype etypes' cutoff_3
       nspecie specie_mask cut3b_mask = do {
     bc \<leftarrow> py_get specie_mask ctype;
     let bcn = nspecie * bc;
     cut3 \<leftarrow> py_max cutoff_3;
     let ind_3_l = filter (\<lambda>i. fst (bond_array_2' ! i) > cut3) [0..<length bond_array_2'];
     let ind_3 = (case ind_3_l of [] \<Rightarrow> length bond_array_2' | i # _ \<Rightarrow> i);
     let bond_array_3 = take ind_3 bond_array_2';
     let bond_positions_3 = take ind_3 bond_positions_2';
     (triplet_counts, cross_bond_inds, cross_bond_dists) \<leftarrow>
        cross_rows (row_probe_sepcut bond_array_2' bond_positions_3 etypes' cutoff_3 nspecie
                      specie_mask cut3b_mask bcn) ind_3 [0..<ind_3];
     Some \<lparr>bond_array_3 = bond_array_3, cross_bond_inds = cross_bond_inds,
           cross_bond_dists = cross_bond_dists, triplet_counts = triplet_counts\<rparr>
   }"

section \<open>Notions used in the statements\<close>

text \<open>
  What the library promises of \<^verbatim>\<open>argsort\<close>: the result is a permutation of the positions and
  lists the keys in ascending order. Two routines meet it: one keeps entries with equal keys in
  their order, the other reverses them.
\<close>

definition argsort_spec :: "(real list \<Rightarrow> nat list) \<Rightarrow> bool" where
  "argsort_spec argsort \<longleftrightarrow>
     (\<forall>ks. mset (argsort ks) = mset [0..<length ks] \<and> sorted (map ((!) ks) (argsort ks)))"

definition stable_argsort :: "real list \<Rightarrow> nat list" where
  "stable_argsort ks = sort_key (\<lambda>i. ks ! i) [0..<length ks]"


text \<open>
  The image test, the table entry of the first pass, the bond of an image, the bonds of one
  atom in fill order, and the four arrays read off a list of bonds through an index list.
\<close>

definition qualifies :: "real \<Rightarrow> vec3 \<Rightarrow> bool" where
  "qualifies rcut im \<longleftrightarrow> norm3 im < rcut \<and> norm3 im \<noteq> 0"

definition entry :: "real \<Rightarrow> vec3 \<Rightarrow> cell \<Rightarrow> int \<times> int \<times> int \<Rightarrow> real \<times> vec3" where
  "entry rcut diff_curr cell s =
     (if qualifies rcut (image diff_curr cell s)
      then (norm3 (image diff_curr cell s), image diff_curr cell s) else (0, zero3))"

definition image_row :: "vec3 \<Rightarrow> cell \<Rightarrow> int list \<Rightarrow> (real \<times> vec3) list \<Rightarrow> bool" where
  "image_row diff_curr cell sweep row \<longleftrightarrow>
     (\<forall>e \<in> set row. e = (0, zero3) \<or>
        (\<exists>s \<in> set (image_shifts sweep).
           e = (norm3 (image diff_curr cell s), image diff_curr cell s)))"

definition bond_of :: "int \<Rightarrow> int \<Rightarrow> vec3 \<Rightarrow> bond" where
  "bond_of spec_curr m im = ((norm3 im, vdiv im (norm3 im)), im, int8 spec_curr, int8 m)"

definition neighbours_of :: "real \<Rightarrow> vec3 \<Rightarrow> cell \<Rightarrow> int list \<Rightarrow> int \<Rightarrow> nat \<Rightarrow> vec3 \<Rightarrow> bond list" where
  "neighbours_of rcut pos_atom cell sweep spec_curr m pos_n =
     map (\<lambda>s. bond_of spec_curr (int m) (image (vsub pos_n pos_atom) cell s))
       (filter (\<lambda>s. qualifies rcut (image (vsub pos_n pos_atom) cell s)) (image_shifts sweep))"

definition permuted :: "bond list \<Rightarrow> nat list \<Rightarrow> two_body_arrays" where
  "permuted filled p =
     \<lparr>bond_array_2 = map (\<lambda>i. fst (filled ! i)) p,
      bond_positions_2 = map (\<lambda>i. fst (snd (filled ! i))) p,
      etypes = map (\<lambda>i. fst (snd (snd (filled ! i)))) p,
      bond_indices = map (\<lambda>i. snd (snd (snd (filled ! i)))) p\<rparr>"

text \<open>
  For the triplet table: the truncation index in closed form, the columns a row accepts, and
  the shape of a finished row. \<open>resolved_cutoff_3 \<dots> a b\<close> is the cutoff the masks assign to a
  bond between species \<open>a\<close> and \<open>b\<close>: \<^verbatim>\<open>cutoff_3[cut3b_mask[specie_mask[a] + nspecie * specie_mask[b]]]\<close>.
\<close>

definition ind_3_of :: "real \<Rightarrow> bond_row list \<Rightarrow> nat" where
  "ind_3_of c ba = length (takeWhile (\<lambda>row. fst row \<le> c) ba)"

definition accepted :: "(nat \<Rightarrow> (real \<times> bool) option) \<Rightarrow> nat \<Rightarrow> bool" where
  "accepted probe n = (case probe n of Some (d, a) \<Rightarrow> a | None \<Rightarrow> False)"

definition probed_dist :: "(nat \<Rightarrow> (real \<times> bool) option) \<Rightarrow> nat \<Rightarrow> real" where
  "probed_dist probe n = (case probe n of Some (d, a) \<Rightarrow> d | None \<Rightarrow> 0)"

definition row_ok ::
  "(nat \<Rightarrow> (real \<times> bool) option) \<Rightarrow> nat \<Rightarrow> nat \<Rightarrow> int \<Rightarrow> int list \<Rightarrow> real list \<Rightarrow> bool"
where
  "row_ok probe ind_3 m trips irow drow \<longleftrightarrow>
     (let acc = filter (accepted probe) [m + 1..<ind_3] in
      trips = int8 (int (length acc)) \<and>
      irow = replicate (m + 1) (- 1) @ map int acc
               @ replicate (ind_3 - (m + 1) - length acc) (- 1) \<and>
      drow = replicate (m + 1) 0 @ map (probed_dist probe) acc
               @ replicate (ind_3 - (m + 1) - length acc) 0)"

definition resolved_cutoff_3 ::
  "real list \<Rightarrow> int \<Rightarrow> int list \<Rightarrow> int list \<Rightarrow> int \<Rightarrow> int \<Rightarrow> real option"
where
  "resolved_cutoff_3 cutoff_3 nspecie specie_mask cut3b_mask a b = do {
     ba \<leftarrow> py_get specie_mask a;
     bb \<leftarrow> py_get specie_mask b;
     resolve_cut3 cutoff_3 cut3b_mask (nspecie * bb) ba
   }"

subsection \<open>A crowded environment\<close>

text \<open>
  130 neighbours on the x axis, at distances 1, 1.001, ..., 1.129 from the central atom: the
  bond array (sorted by distance, unit direction along x) and the positions relative to the
  central atom, as the neighbour enumerator hands them to the triplet builder.
\<close>

definition crowd_positions :: "vec3 list" where
  "crowd_positions = map (\<lambda>i. (1 + real i / 1000, 0, 0)) [0..<130]"

definition crowd_bonds :: "bond_row list" where
  "crowd_bonds = map (\<lambda>i. (1 + real i / 1000, (1, 0, 0))) [0..<130]"

section \<open>Results on the registry\<close>

text \<open>
  C6 (as stated, refuted): the names \<^verbatim>\<open>"mb"\<close> and \<^verbatim>\<open>"2+3+mb"\<close> are not keys of the registry,
  neither bare nor with any of the three suffixes; a lookup raises \<^verbatim>\<open>KeyError\<close>.
\<close>

theorem str_to_kernel_mb_absent:
  "kernel_set ''mb'' = (None, None, None, None) \<and>
   kernel_set ''2+3+mb'' = (None, None, None, None)"
  by (simp add: kernel_set_def str_to_kernel_def str_to_kernel_items_def)

text \<open>
  C6 (amended): the short names \<^verbatim>\<open>"2"\<close>, \<^verbatim>\<open>"3"\<close>, \<^verbatim>\<open>"many"\<close>, \<^verbatim>\<open>"2+3"\<close>, \<^verbatim>\<open>"2+3+many"\<close> and the
  long names \<^verbatim>\<open>"two_body_mc"\<close>, \<^verbatim>\<open>"three_body_mc"\<close>, \<^verbatim>\<open>"two_plus_three_plus_many_body_mc"\<close> each
  map to the four variants of their kernel order: the force/force kernel under the base name, and
  the gradient, energy/energy and force/energy kernels under the names with suffix \<^verbatim>\<open>_grad\<close>,
  \<^verbatim>\<open>_en\<close>, \<^verbatim>\<open>_force_en\<close>. The long names of the 2+3 order are the four function names
  themselves.
\<close>

theorem str_to_kernel_variants:
  "kernel_set ''2'' =
     (Some Ref_two_body_mc, Some Ref_two_body_mc_grad,
      Some Ref_two_body_mc_en, Some Ref_two_body_mc_force_en) \<and>
   kernel_set ''3'' =
     (Some Ref_three_body_mc, Some Ref_three_body_mc_grad,
      Some Ref_three_body_mc_en, Some Ref_three_body_mc_force_en) \<and>
   kernel_set ''many'' =
     (Some Ref_many_body_mc, Some Ref_many_body_mc_grad,
      Some Ref_many_body_mc_en, Some Ref_many_body_mc_force_en) \<and>
   kernel_set ''2+3'' =
     (Some Ref_two_plus_three_body_mc, Some Ref_two_plus_three_body_mc_grad,
      Some Ref_two_plus_three_mc_en, Some Ref_two_plus_three_mc_force_en) \<and>
   kernel_set ''2+3+many'' =
     (Some Ref_two_plus_three_plus_many_body_mc, Some Ref_two_plus_three_plus_many_body_mc_grad,
      Some Ref_two_plus_three_plus_many_body_mc_en,
      Some Ref_two_plus_three_plus_many_body_mc_force_en) \<and>
   kernel_set ''two_body_mc'' = kernel_set ''2'' \<and>
   kernel_set ''three_body_mc'' = kernel_set ''3'' \<and>
   kernel_set ''two_plus_three_plus_many_body_mc'' = kernel_set ''2+3+many'' \<and>
   (str_to_kernel ''two_plus_three_body_mc'', str_to_kernel ''two_plus_three_body_mc_grad'',
    str_to_kernel ''two_plus_three_mc_en'', str_to_kernel ''two_plus_three_mc_force_en'')
     = kernel_set ''2+3''"
  by (simp add: kernel_set_def str_to_kernel_def str_to_kernel_items_def)

section \<open>Basic facts\<close>

lemma py_get_nat: "i < length xs \<Longrightarrow> py_get xs (int i) = Some (xs ! i)"
  by (simp add: py_get_def)

lemma py_get_in_range:
  "- int (length xs) \<le> i \<Longrightarrow> i < int (length xs) \<Longrightarrow> \<exists>v. py_get xs i = Some v"
  by (simp add: py_get_def Let_def)

lemma py_take_in_range:
  "set inds \<subseteq> {..<length xs} \<Longrightarrow> py_take xs inds = Some (map ((!) xs) inds)"
  by (induction inds) (simp_all add: py_take_def py_get_nat)

lemma map_nth_map:
  "set p \<subseteq> {..<length xs} \<Longrightarrow> map ((!) (map f xs)) p = map (\<lambda>i. f (xs ! i)) p"
  by (induction p) auto

lemma int8_small: "- 128 \<le> v \<Longrightarrow> v \<le> 127 \<Longrightarrow> int8 v = v"
  by (simp add: int8_def sint_sbintrunc' signed_take_bit_int_eq_self)

lemma int8_mod: "int8 v = (v + 128) mod 256 - 128"
  by (simp add: int8_def sint_sbintrunc' signed_take_bit_eq_take_bit_shift take_bit_eq_mod)

lemma int8_eq_iff: "int8 v = v \<longleftrightarrow> - 128 \<le> v \<and> v \<le> 127"
  by (auto simp: int8_def sint_sbintrunc' signed_take_bit_int_eq_self_iff)

lemma norm3_nonneg: "0 \<le> norm3 v"
  by (cases v) simp

lemma sum_squares3_zero:
  fixes x y z :: real
  shows "x * x + y * y + z * z = 0 \<longleftrightarrow> x = 0 \<and> y = 0 \<and> z = 0"
proof
  assume a: "x * x + y * y + z * z = 0"
  have "0 \<le> x * x" "0 \<le> y * y" "0 \<le> z * z" by simp_all
  with a have "x * x = 0" "y * y = 0" "z * z = 0" by linarith+
  then show "x = 0 \<and> y = 0 \<and> z = 0" by simp
qed simp

lemma norm3_less_sq:
  assumes "0 < rcut"
  shows "norm3 (x, y, z) < rcut \<longleftrightarrow> x * x + y * y + z * z < rcut * rcut"
proof -
  have "rcut = sqrt (rcut * rcut)" using assms by simp
  then have "norm3 (x, y, z) < rcut \<longleftrightarrow> sqrt (x * x + y * y + z * z) < sqrt (rcut * rcut)"
    by simp
  then show ?thesis by (simp only: real_sqrt_less_iff)
qed

lemma norm3_axis: "norm3 (x, 0, 0) = \<bar>x\<bar>"
  by simp

lemma qualifies_sq:
  assumes "0 < rcut"
  shows "qualifies rcut (x, y, z) \<longleftrightarrow>
           x * x + y * y + z * z < rcut * rcut \<and> (x \<noteq> 0 \<or> y \<noteq> 0 \<or> z \<noteq> 0)"
  using norm3_less_sq [OF assms, of x y z] sum_squares3_zero [of x y z]
  by (auto simp: qualifies_def)

lemma image_shifts_default:
  "image_shifts [- 1, 0, 1] =
     [(- 1, - 1, - 1), (- 1, - 1, 0), (- 1, - 1, 1), (- 1, 0, - 1), (- 1, 0, 0), (- 1, 0, 1),
      (- 1, 1, - 1), (- 1, 1, 0), (- 1, 1, 1),
      (0, - 1, - 1), (0, - 1, 0), (0, - 1, 1), (0, 0, - 1), (0, 0, 0), (0, 0, 1),
      (0, 1, - 1), (0, 1, 0), (0, 1, 1),
      (1, - 1, - 1), (1, - 1, 0), (1, - 1, 1), (1, 0, - 1), (1, 0, 0), (1, 0, 1),
      (1, 1, - 1), (1, 1, 0), (1, 1, 1)]"
  by (simp add: image_shifts_def)

section \<open>The neighbour enumerator\<close>

subsection \<open>The two passes in closed form\<close>

lemma length_image_shifts: "length (image_shifts sweep) = length sweep ^ 3"
  by (simp add: image_shifts_def length_concat comp_def sum_list_triv power3_eq_cube)

lemma record_images_Cons:
  "record_images rcut diff_curr cell (s # ss) im_count row =
     (if qualifies rcut (image diff_curr cell s) then
        (if im_count < length row
         then record_images rcut diff_curr cell ss (Suc im_count)
                (row[im_count := (norm3 (image diff_curr cell s), image diff_curr cell s)])
         else None)
      else record_images rcut diff_curr cell ss (Suc im_count) row)"
  by (simp add: qualifies_def Let_def)

lemma record_images_fresh:
  "record_images rcut diff_curr cell ss (length pre) (pre @ replicate (length ss) (0, zero3))
     = Some (pre @ map (entry rcut diff_curr cell) ss)"
proof (induction ss arbitrary: pre)
  case Nil
  then show ?case by simp
next
  case (Cons s ss)
  show ?case
  proof (cases "qualifies rcut (image diff_curr cell s)")
    case True
    then show ?thesis
      using Cons.IH [of "pre @ [(norm3 (image diff_curr cell s), image diff_curr cell s)]"]
      by (simp add: record_images_Cons entry_def del: record_images.simps)
  next
    case False
    then show ?thesis
      using Cons.IH [of "pre @ [(0, zero3)]"]
      by (simp add: record_images_Cons entry_def del: record_images.simps)
  qed
qed

lemma record_all_eq:
  "record_all cutoff_2 pos_atom cell sweep positions
     = Some (map (\<lambda>pos_n. map (entry cutoff_2 (vsub pos_n pos_atom) cell) (image_shifts sweep))
               positions)"
proof (induction positions)
  case Nil
  then show ?case by simp
next
  case (Cons p ps)
  have "record_images cutoff_2 (vsub p pos_atom) cell (image_shifts sweep) 0
          (replicate (length sweep ^ 3) (0, zero3))
        = Some (map (entry cutoff_2 (vsub p pos_atom) cell) (image_shifts sweep))"
    using record_images_fresh [of cutoff_2 "vsub p pos_atom" cell "image_shifts sweep" "[]"]
    by (simp add: length_image_shifts)
  then show ?case using Cons by simp
qed

lemma fill_row_entries:
  "fill_row rcut spec_curr m (map (entry rcut diff_curr cell) ss)
     = map (\<lambda>s. bond_of spec_curr m (image diff_curr cell s))
         (filter (\<lambda>s. qualifies rcut (image diff_curr cell s)) ss)"
  by (induction ss) (auto simp: fill_row_def entry_def qualifies_def bond_of_def)

lemma fill_all_closed:
  "m0 + length ps \<le> length species \<Longrightarrow>
   fill_all cutoff_2 species m0
       (map (\<lambda>pos_n. map (entry cutoff_2 (vsub pos_n pos_atom) cell) (image_shifts sweep)) ps)
     = Some (concat (map (\<lambda>(m, pos_n).
                neighbours_of cutoff_2 pos_atom cell sweep (species ! m) m pos_n)
              (zip [m0..<m0 + length ps] ps)))"
proof (induction ps arbitrary: m0)
  case Nil
  then show ?case by simp
next
  case (Cons p ps)
  have u: "[m0..<Suc (m0 + length ps)] = m0 # [Suc m0..<Suc (m0 + length ps)]"
    by (subst upt_rec) simp
  have "Suc m0 + length ps \<le> length species" using Cons.prems by simp
  from Cons.IH [OF this] show ?case
    using Cons.prems
    by (simp add: u py_get_nat fill_row_entries neighbours_of_def del: upt_Suc)
qed

lemma fill_2_body_closed:
  assumes "py_get positions atom = Some pos_atom" and "length positions \<le> length species"
  shows "fill_2_body positions atom cell cutoff_2 species sweep
           = Some (concat (map (\<lambda>(m, pos_n).
                neighbours_of cutoff_2 pos_atom cell sweep (species ! m) m pos_n)
              (zip [0..<length positions] positions)))"
  using assms fill_all_closed [of 0 positions species cutoff_2 pos_atom cell sweep]
  by (simp add: fill_2_body_def record_all_eq)




subsection \<open>The species-resolved passes in closed form\<close>

lemma record_images_post:
  "record_images rcut diff_curr cell ss (length pre)
       (pre @ replicate (length ss) (0, zero3) @ post)
     = Some (pre @ map (entry rcut diff_curr cell) ss @ post)"
proof (induction ss arbitrary: pre)
  case Nil
  then show ?case by simp
next
  case (Cons s ss)
  show ?case
  proof (cases "qualifies rcut (image diff_curr cell s)")
    case True
    then show ?thesis
      using Cons.IH [of "pre @ [(norm3 (image diff_curr cell s), image diff_curr cell s)]"]
      by (simp add: record_images_Cons entry_def del: record_images.simps)
  next
    case False
    then show ?thesis
      using Cons.IH [of "pre @ [(0, zero3)]"]
      by (simp add: record_images_Cons entry_def del: record_images.simps)
  qed
qed

lemma record_images_27:
  assumes "length sweep ^ 3 \<le> 27"
  shows "record_images rcut diff_curr cell (image_shifts sweep) 0 (replicate 27 (0, zero3))
           = Some (map (entry rcut diff_curr cell) (image_shifts sweep)
                    @ replicate (27 - length sweep ^ 3) (0, zero3))"
proof -
  have "replicate 27 (0 :: real, zero3)
          = [] @ replicate (length (image_shifts sweep)) (0, zero3)
               @ replicate (27 - length sweep ^ 3) (0, zero3)"
    using assms by (simp add: length_image_shifts replicate_add [symmetric])
  then show ?thesis
    using record_images_post [of rcut diff_curr cell "image_shifts sweep" "[]"
        "replicate (27 - length sweep ^ 3) (0, zero3)"]
    by (simp add: length_image_shifts)
qed

lemma fill_row_zeros:
  "fill_row rcut spec_curr m (row @ replicate k (0, zero3)) = fill_row rcut spec_curr m row"
  by (simp add: fill_row_def)

lemma record_all_sepcut_closed:
  assumes "\<forall>m. n0 \<le> m \<and> m < n0 + length ps \<longrightarrow>
             resolve_cutoff cutoff_2 species specie_mask bond_mask bcn (int m) = Some (rc m)"
    and "length sweep ^ 3 \<le> 27"
  shows "record_all_sepcut cutoff_2 species specie_mask bond_mask bcn pos_atom cell sweep n0 ps
           = Some (map (\<lambda>(m, pos_n). map (entry (rc m) (vsub pos_n pos_atom) cell) (image_shifts sweep)
                          @ replicate (27 - length sweep ^ 3) (0, zero3))
                    (zip [n0..<n0 + length ps] ps))"
  using assms(1)
proof (induction ps arbitrary: n0)
  case Nil
  then show ?case by simp
next
  case (Cons p ps)
  have u: "[n0..<Suc (n0 + length ps)] = n0 # [Suc n0..<Suc (n0 + length ps)]"
    by (subst upt_rec) simp
  have r0: "resolve_cutoff cutoff_2 species specie_mask bond_mask bcn (int n0) = Some (rc n0)"
    using Cons.prems by simp
  have "\<forall>m. Suc n0 \<le> m \<and> m < Suc n0 + length ps \<longrightarrow>
             resolve_cutoff cutoff_2 species specie_mask bond_mask bcn (int m) = Some (rc m)"
    using Cons.prems by simp
  from Cons.IH [OF this] show ?case
    using r0 by (simp add: u record_images_27 [OF assms(2)] del: upt_Suc)
qed

lemma fill_all_sepcut_closed:
  assumes "\<forall>m. m0 \<le> m \<and> m < m0 + length ps \<longrightarrow>
             resolve_cutoff cutoff_2 species specie_mask bond_mask bcn (int m) = Some (rc m)"
    and "m0 + length ps \<le> length species"
  shows "fill_all_sepcut cutoff_2 species specie_mask bond_mask bcn m0
           (map (\<lambda>(m, pos_n). map (entry (rc m) (vsub pos_n pos_atom) cell) (image_shifts sweep)
                          @ replicate k (0, zero3))
              (zip [m0..<m0 + length ps] ps))
         = Some (concat (map (\<lambda>(m, pos_n).
                   neighbours_of (rc m) pos_atom cell sweep (species ! m) m pos_n)
                 (zip [m0..<m0 + length ps] ps)))"
  using assms
proof (induction ps arbitrary: m0)
  case Nil
  then show ?case by simp
next
  case (Cons p ps)
  have u: "[m0..<Suc (m0 + length ps)] = m0 # [Suc m0..<Suc (m0 + length ps)]"
    by (subst upt_rec) simp
  have r0: "resolve_cutoff cutoff_2 species specie_mask bond_mask bcn (int m0) = Some (rc m0)"
    using Cons.prems(1) by simp
  have "\<forall>m. Suc m0 \<le> m \<and> m < Suc m0 + length ps \<longrightarrow>
             resolve_cutoff cutoff_2 species specie_mask bond_mask bcn (int m) = Some (rc m)"
    using Cons.prems(1) by simp
  moreover have "Suc m0 + length ps \<le> length species" using Cons.prems(2) by simp
  ultimately have "fill_all_sepcut cutoff_2 species specie_mask bond_mask bcn (Suc m0)
           (map (\<lambda>(m, pos_n). map (entry (rc m) (vsub pos_n pos_atom) cell) (image_shifts sweep)
                          @ replicate k (0, zero3))
              (zip [Suc m0..<Suc m0 + length ps] ps))
         = Some (concat (map (\<lambda>(m, pos_n).
                   neighbours_of (rc m) pos_atom cell sweep (species ! m) m pos_n)
                 (zip [Suc m0..<Suc m0 + length ps] ps)))"
    by (rule Cons.IH)
  then show ?case
    using r0 Cons.prems(2)
    by (simp add: u py_get_nat fill_row_zeros fill_row_entries neighbours_of_def del: upt_Suc)
qed

lemma fill_2_body_sepcut_closed:
  assumes "py_get positions atom = Some pos_atom" and "py_get species atom = Some sa"
    and "py_get specie_mask sa = Some bc"
    and "\<forall>m < length positions.
           resolve_cutoff cutoff_2 species specie_mask bond_mask (nspecie * bc) (int m) = Some (rc m)"
    and "length positions \<le> length species" and "length sweep ^ 3 \<le> 27"
  shows "fill_2_body_sepcut positions atom cell cutoff_2 species sweep nspecie specie_mask bond_mask
           = Some (concat (map (\<lambda>(m, pos_n).
                neighbours_of (rc m) pos_atom cell sweep (species ! m) m pos_n)
              (zip [0..<length positions] positions)))"
proof -
  have r: "\<forall>m. 0 \<le> m \<and> m < 0 + length positions \<longrightarrow>
             resolve_cutoff cutoff_2 species specie_mask bond_mask (nspecie * bc) (int m)
               = Some (rc m)"
    using assms(4) by simp
  show ?thesis
    using assms(1,2,3,5)
      record_all_sepcut_closed [OF r assms(6), of pos_atom cell]
      fill_all_sepcut_closed [OF r, of pos_atom cell sweep "27 - length sweep ^ 3"]
    by (simp add: fill_2_body_sepcut_def Let_def)
qed

lemma resolve_cutoff_trivial:
  assumes "\<forall>s \<in> set species. py_get specie_mask s = Some 0" and "m < length species"
  shows "resolve_cutoff [c] species specie_mask [0] 0 (int m) = Some c"
  using assms by (simp add: resolve_cutoff_def py_get_nat) (simp add: py_get_def)

lemma py_get_mem: "py_get xs i = Some v \<Longrightarrow> v \<in> set xs"
  by (auto simp: py_get_def Let_def split: if_splits)

lemma py_get_shorter:
  assumes "- int (length xs) \<le> i" and "i < int (length xs)" and "length xs \<le> length ys"
  shows "\<exists>v. py_get ys i = Some v"
  using assms by (intro py_get_in_range) auto

lemma power3_le_27: "length (sweep :: int list) \<le> 3 \<Longrightarrow> length sweep ^ 3 \<le> 27"
  using power_mono [of "length sweep" 3 3] by simp

lemma sepcut_2_body_trivial_mask:
  assumes "- int (length positions) \<le> atom" and "atom < int (length positions)"
    and "length positions \<le> length species"
    and "\<forall>s \<in> set species. py_get specie_mask s = Some 0"
    and "length sweep \<le> 3"
  shows "get_2_body_arrays_sepcut argsort positions atom cell [c] species sweep
             nspecie specie_mask [0]
           = get_2_body_arrays argsort positions atom cell c species sweep"
proof -
  obtain pos_atom where pa: "py_get positions atom = Some pos_atom"
    using py_get_in_range [OF assms(1,2)] by blast
  obtain sa where sa: "py_get species atom = Some sa"
    using py_get_shorter [OF assms(1,2,3)] by blast
  have bc: "py_get specie_mask sa = Some 0"
    using assms(4) py_get_mem [OF sa] by blast
  have rc: "\<forall>m < length positions.
           resolve_cutoff [c] species specie_mask [0] (nspecie * 0) (int m) = Some c"
    using assms(3) resolve_cutoff_trivial [OF assms(4)] by simp
  have "fill_2_body_sepcut positions atom cell [c] species sweep nspecie specie_mask [0]
          = fill_2_body positions atom cell c species sweep"
    using fill_2_body_sepcut_closed [OF pa sa bc rc assms(3) power3_le_27 [OF assms(5)], of cell]
      fill_2_body_closed [OF pa assms(3), of cell c sweep]
    by simp
  then show ?thesis
    by (simp add: get_2_body_arrays_sepcut_def get_2_body_arrays_def)
qed

subsection \<open>The sorting stage\<close>

lemma argsort_spec_set:
  assumes "argsort_spec argsort"
  shows "set (argsort ks) = {..<length ks}"
proof -
  have "mset (argsort ks) = mset [0..<length ks]"
    using assms by (simp add: argsort_spec_def)
  then have "set (argsort ks) = set [0..<length ks]"
    by (rule mset_eq_setD)
  then show ?thesis by (simp add: lessThan_atLeast0)
qed

lemma argsort_spec_Nil:
  assumes "argsort_spec argsort"
  shows "argsort [] = []"
proof -
  have "mset (argsort []) = mset [0..<length ([] :: real list)]"
    using assms unfolding argsort_spec_def by blast
  then show ?thesis by simp
qed

lemma argsort_spec_stable: "argsort_spec stable_argsort"
  by (simp add: argsort_spec_def stable_argsort_def sorted_sort_key)



lemma sort_arrays_eq:
  assumes "argsort_spec argsort"
  shows "sort_arrays argsort filled
           = Some (permuted filled (argsort (map (fst \<circ> fst) filled)))"
proof -
  let ?p = "argsort (map (fst \<circ> fst) filled)"
  have s: "set ?p \<subseteq> {..<length filled}"
    using argsort_spec_set [OF assms, of "map (fst \<circ> fst) filled"] by simp
  show ?thesis
    using s by (simp add: sort_arrays_def Let_def py_take_in_range map_nth_map permuted_def)
qed



subsection \<open>A small structure\<close>

lemma line_filled_default:
  "fill_2_body [(0, 0, 0), (1, 0, 0), (- 1, 0, 0)] 0 (cubic 10) 2 [1, 1, 1] [- 1, 0, 1]
     = Some [((1, (1, 0, 0)), (1, 0, 0), 1, 1), ((1, (- 1, 0, 0)), (- 1, 0, 0), 1, 2)]"
  by (subst fill_2_body_closed [where pos_atom = "(0, 0, 0)"])
     (simp_all add: py_get_def neighbours_of_def image_shifts_default cubic_def qualifies_sq
        bond_of_def int8_small upt_rec)

lemma stable_argsort_tie: "stable_argsort [1, 1] = [0, 1]"
  by (simp add: stable_argsort_def upt_rec)


lemma line_arrays_stable:
  "get_2_body_arrays stable_argsort [(0, 0, 0), (1, 0, 0), (- 1, 0, 0)] 0 (cubic 10) 2 [1, 1, 1]
       [- 1, 0, 1]
     = Some \<lparr>bond_array_2 = [(1, (1, 0, 0)), (1, (- 1, 0, 0))],
             bond_positions_2 = [(1, 0, 0), (- 1, 0, 0)],
             etypes = [1, 1], bond_indices = [1, 2]\<rparr>"
  by (simp add: get_2_body_arrays_def line_filled_default sort_arrays_eq [OF argsort_spec_stable]
        stable_argsort_tie permuted_def)

subsection \<open>Order of the returned arrays\<close>


text \<open>Both variants return on the small structure, with a sorting routine that meets the contract.\<close>

lemma line_arrays_sepcut_stable:
  "get_2_body_arrays_sepcut stable_argsort [(0, 0, 0), (1, 0, 0), (- 1, 0, 0)] 0 (cubic 10) [2]
       [1, 1, 1] [- 1, 0, 1] 1 [0, 0] [0]
     = Some \<lparr>bond_array_2 = [(1, (1, 0, 0)), (1, (- 1, 0, 0))],
             bond_positions_2 = [(1, 0, 0), (- 1, 0, 0)],
             etypes = [1, 1], bond_indices = [1, 2]\<rparr>"
  by (subst sepcut_2_body_trivial_mask) (simp_all add: line_arrays_stable py_get_def)



subsection \<open>A non-positive cutoff\<close>

lemma qualifies_nonpos: "rcut \<le> 0 \<Longrightarrow> \<not> qualifies rcut im"
  using norm3_nonneg [of im] by (simp add: qualifies_def)

text \<open>
  C9: with a cutoff \<open>cutoff_2 \<le> 0\<close>, a central index within the position array and a species
  label for every atom, \<^verbatim>\<open>get_2_body_arrays\<close> returns (it does not raise) and all four arrays
  are empty.
\<close>

theorem nonpositive_cutoff_empty:
  assumes "argsort_spec argsort" and "cutoff_2 \<le> 0"
    and "- int (length positions) \<le> atom" and "atom < int (length positions)"
    and "length positions \<le> length species"
  shows "get_2_body_arrays argsort positions atom cell cutoff_2 species sweep
           = Some \<lparr>bond_array_2 = [], bond_positions_2 = [], etypes = [], bond_indices = []\<rparr>"
proof -
  obtain pos_atom where pa: "py_get positions atom = Some pos_atom"
    using py_get_in_range [OF assms(3,4)] by blast
  have "fill_2_body positions atom cell cutoff_2 species sweep = Some []"
    using fill_2_body_closed [OF pa assms(5), of cell cutoff_2 sweep] assms(2)
    by (simp add: neighbours_of_def qualifies_nonpos split_def)
  then show ?thesis
    using assms(1)
    by (simp add: get_2_body_arrays_def sort_arrays_eq permuted_def argsort_spec_Nil)
qed

theorem nonpositive_cutoff_empty_witness:
  "argsort_spec stable_argsort \<and> (0 :: real) \<le> 0 \<and>
   - int (length [(0 :: real, 0 :: real, 0 :: real), (1, 0, 0), (- 1, 0, 0)]) \<le> 0 \<and>
   (0 :: int) < int (length [(0 :: real, 0 :: real, 0 :: real), (1, 0, 0), (- 1, 0, 0)]) \<and>
   length [(0 :: real, 0 :: real, 0 :: real), (1, 0, 0), (- 1, 0, 0)] \<le> length [1 :: int, 1, 1] \<and>
   get_2_body_arrays stable_argsort [(0, 0, 0), (1, 0, 0), (- 1, 0, 0)] 0 (cubic 10) 0 [1, 1, 1]
       [- 1, 0, 1]
     = Some \<lparr>bond_array_2 = [], bond_positions_2 = [], etypes = [], bond_indices = []\<rparr>"
  using nonpositive_cutoff_empty [OF argsort_spec_stable,
      of 0 "[(0, 0, 0), (1, 0, 0), (- 1, 0, 0)]" 0 "[1, 1, 1]" "cubic 10" "[- 1, 0, 1]"]
    argsort_spec_stable
  by simp

section \<open>The triplet table\<close>

subsection \<open>Truncation\<close>

lemma first_above_eq:
  "first_above c ds k =
     (if \<forall>d \<in> set ds. d \<le> c then - 1 else int (k + length (takeWhile (\<lambda>d. d \<le> c) ds)))"
  by (induction ds arbitrary: k) auto

lemma length_takeWhile_all: "\<forall>x \<in> set xs. P x \<Longrightarrow> length (takeWhile P xs) = length xs"
  by (induction xs) auto

lemma ind_3_scalar:
  "nat (let ind_3 = first_above c (map fst ba) 0 in if ind_3 = - 1 then int (length ba) else ind_3)
     = ind_3_of c ba"
  by (auto simp: first_above_eq Let_def ind_3_of_def takeWhile_map comp_def length_takeWhile_all)

lemma ind_3_scalar':
  "nat (if first_above c (map fst ba) 0 = - 1 then int (length ba)
        else first_above c (map fst ba) 0) = ind_3_of c ba"
  using ind_3_scalar [of c ba] by (simp add: Let_def)

lemma ind_3_le: "ind_3_of c ba \<le> length ba"
  by (simp add: ind_3_of_def length_takeWhile_le)

lemma ind_3_below: "m < ind_3_of c ba \<Longrightarrow> fst (ba ! m) \<le> c"
  unfolding ind_3_of_def using nth_length_takeWhile [of "\<lambda>row. fst row \<le> c" ba]
  by (metis takeWhile_nth nth_mem set_takeWhileD)

lemma first_index_above:
  "(case filter (\<lambda>i. Q (xs ! i)) [0..<length xs] of [] \<Rightarrow> length xs | i # _ \<Rightarrow> i)
     = length (takeWhile (\<lambda>x. \<not> Q x) xs)"
proof (induction xs)
  case Nil
  then show ?case by simp
next
  case (Cons x xs)
  have u: "[0..<Suc (length xs)] = 0 # map Suc [0..<length xs]"
    by (simp add: upt_conv_Cons map_Suc_upt del: upt_Suc)
  show ?case
  proof (cases "Q x")
    case True
    then show ?thesis by (simp add: u del: upt_Suc)
  next
    case False
    then show ?thesis
      using Cons.IH
      by (simp add: u filter_map comp_def del: upt_Suc split: list.splits)
  qed
qed

lemma ind_3_sepcut:
  "(case filter (\<lambda>i. fst (ba ! i) > cut3) [0..<length ba] of [] \<Rightarrow> length ba | i # _ \<Rightarrow> i)
     = ind_3_of cut3 ba"
  using first_index_above [where Q = "\<lambda>row. fst row > cut3" and xs = ba]
  by (simp add: ind_3_of_def not_less)

subsection \<open>Rows in closed form\<close>

lemma cross_row_closed:
  assumes "cross_row probe ns cnt trips irow drow = Some (trips', irow', drow')"
  shows "trips' = trips + int (length (filter (accepted probe) ns)) \<and>
         irow' = take cnt irow @ map int (filter (accepted probe) ns)
                   @ drop (cnt + length (filter (accepted probe) ns)) irow \<and>
         drow' = take cnt drow @ map (probed_dist probe) (filter (accepted probe) ns)
                   @ drop (cnt + length (filter (accepted probe) ns)) drow"
  using assms
proof (induction ns arbitrary: cnt trips irow drow)
  case Nil
  then show ?case by simp
next
  case (Cons n ns)
  from Cons.prems obtain d a where p: "probe n = Some (d, a)"
    by (cases "probe n") auto
  show ?case
  proof (cases a)
    case True
    with Cons.prems p have lt: "cnt < length irow" "cnt < length drow"
      and rec: "cross_row probe ns (Suc cnt) (trips + 1) (irow[cnt := int n])
                  (drow[cnt := d]) = Some (trips', irow', drow')"
      by (auto split: if_splits)
    have acc: "accepted probe n" "probed_dist probe n = d"
      using p True by (simp_all add: accepted_def probed_dist_def)
    from Cons.IH [OF rec] lt acc show ?thesis
      by (simp add: take_Suc_conv_app_nth)
  next
    case False
    with Cons.prems p have
      rec: "cross_row probe ns cnt trips irow drow = Some (trips', irow', drow')"
      by simp
    have acc: "\<not> accepted probe n"
      using p False by (simp add: accepted_def)
    from Cons.IH [OF rec] acc show ?thesis by simp
  qed
qed

lemma cross_row_fresh:
  assumes "cross_row probe [m + 1..<ind_3] (m + 1) 0 (replicate ind_3 (- 1)) (replicate ind_3 0)
             = Some (trips, irow, drow)"
    and "m < ind_3"
  shows "trips = int (length (filter (accepted probe) [m + 1..<ind_3])) \<and>
         irow = replicate (m + 1) (- 1)
                  @ map int (filter (accepted probe) [m + 1..<ind_3])
                  @ replicate (ind_3 - (m + 1) - length (filter (accepted probe) [m + 1..<ind_3]))
                      (- 1) \<and>
         drow = replicate (m + 1) 0
                  @ map (probed_dist probe) (filter (accepted probe) [m + 1..<ind_3])
                  @ replicate (ind_3 - (m + 1) - length (filter (accepted probe) [m + 1..<ind_3]))
                      0"
  using cross_row_closed [OF assms(1)] assms(2)
  by (simp add: min_def)

lemma cross_rows_closed:
  assumes "cross_rows row_probe ind_3 ms = Some (tc, ci, cd)" and "\<forall>m \<in> set ms. m < ind_3"
  shows "length tc = length ms \<and> length ci = length ms \<and> length cd = length ms \<and>
         (\<forall>j < length ms. \<exists>probe. row_probe (ms ! j) = Some probe \<and>
             row_ok probe ind_3 (ms ! j) (tc ! j) (ci ! j) (cd ! j))"
  using assms
proof (induction ms arbitrary: tc ci cd)
  case Nil
  then show ?case by simp
next
  case (Cons m ms)
  from Cons.prems(1) obtain probe trips irow drow tc' ci' cd' where
    rp: "row_probe m = Some probe"
    and cr: "cross_row probe [m + 1..<ind_3] (m + 1) 0 (replicate ind_3 (- 1)) (replicate ind_3 0)
               = Some (trips, irow, drow)"
    and rest: "cross_rows row_probe ind_3 ms = Some (tc', ci', cd')"
    and eq: "tc = int8 trips # tc'" "ci = irow # ci'" "cd = drow # cd'"
    by (auto simp: bind_eq_Some_conv)
  have m: "m < ind_3" using Cons.prems(2) by simp
  have ok: "row_ok probe ind_3 m (int8 trips) irow drow"
    using cross_row_fresh [OF cr m] by (simp add: row_ok_def Let_def)
  have ih: "length tc' = length ms \<and> length ci' = length ms \<and> length cd' = length ms \<and>
         (\<forall>j < length ms. \<exists>probe. row_probe (ms ! j) = Some probe \<and>
             row_ok probe ind_3 (ms ! j) (tc' ! j) (ci' ! j) (cd' ! j))"
    using Cons.IH [OF rest] Cons.prems(2) by simp
  show ?case
  proof (intro conjI allI impI)
    fix j assume "j < length (m # ms)"
    then show "\<exists>probe. row_probe ((m # ms) ! j) = Some probe \<and>
        row_ok probe ind_3 ((m # ms) ! j) (tc ! j) (ci ! j) (cd ! j)"
      using rp ok ih eq by (cases j) auto
  qed (use ih eq in simp_all)
qed

lemma cross_rows_upt:
  assumes "cross_rows row_probe ind_3 [0..<ind_3] = Some (tc, ci, cd)"
  shows "length tc = ind_3 \<and> length ci = ind_3 \<and> length cd = ind_3 \<and>
         (\<forall>m < ind_3. \<exists>probe. row_probe m = Some probe \<and>
             row_ok probe ind_3 m (tc ! m) (ci ! m) (cd ! m))"
  using cross_rows_closed [OF assms] by simp

lemma strict_sorted_nth_ge:
  fixes xs :: "nat list"
  shows "sorted_wrt (<) xs \<Longrightarrow> \<forall>x \<in> set xs. a \<le> x \<Longrightarrow> j < length xs \<Longrightarrow> a + j \<le> xs ! j"
proof (induction xs arbitrary: a j)
  case Nil
  then show ?case by simp
next
  case (Cons x xs)
  show ?case
  proof (cases j)
    case 0
    then show ?thesis using Cons.prems by simp
  next
    case (Suc j')
    have "Suc a + j' \<le> xs ! j'"
      using Cons.prems Suc by (intro Cons.IH) auto
    then show ?thesis using Suc by simp
  qed
qed

lemma filter_upt_nth:
  assumes "j < length (filter P [a..<b])"
  shows "a + j \<le> filter P [a..<b] ! j \<and> filter P [a..<b] ! j < b \<and> P (filter P [a..<b] ! j)"
proof -
  have mem: "filter P [a..<b] ! j \<in> set (filter P [a..<b])"
    using assms by (rule nth_mem)
  have "sorted_wrt (<) (filter P [a..<b])"
    by (intro sorted_wrt_filter) (simp add: sorted_wrt_upt) 
  moreover have "\<forall>x \<in> set (filter P [a..<b]). a \<le> x" by simp
  ultimately have "a + j \<le> filter P [a..<b] ! j"
    using assms by (rule strict_sorted_nth_ge)
  then show ?thesis using mem by simp
qed

lemma row_nth:
  assumes "k < a + length acc + r"
  shows "(replicate a x @ map f acc @ replicate r x) ! k
           = (if a \<le> k \<and> k - a < length acc then f (acc ! (k - a)) else x)"
  using assms by (auto simp: nth_append)

lemma row_ok_entry:
  assumes "row_ok probe ind_3 m trips irow drow" and "m < ind_3" and "k < ind_3"
    and "irow ! k \<noteq> - 1"
  shows "\<exists>n. m < k \<and> k \<le> n \<and> n < ind_3 \<and> accepted probe n \<and> irow ! k = int n \<and>
             drow ! k = probed_dist probe n \<and>
             k \<le> m + length (filter (accepted probe) [m + 1..<ind_3])"
proof -
  define acc where "acc = filter (accepted probe) [m + 1..<ind_3]"
  define a where "a = m + 1"
  define r where "r = ind_3 - (m + 1) - length acc"
  have irow: "irow = replicate a (- 1) @ map int acc @ replicate r (- 1)"
    and drow: "drow = replicate a 0 @ map (probed_dist probe) acc @ replicate r 0"
    using assms(1) by (simp_all add: row_ok_def Let_def acc_def a_def r_def)
  have len: "length acc \<le> ind_3 - (m + 1)"
    unfolding acc_def using length_filter_le [of "accepted probe" "[m + 1..<ind_3]"] by simp
  have k: "k < a + length acc + r"
    using len assms(2,3) by (simp add: a_def r_def)
  have ik: "irow ! k = (if a \<le> k \<and> k - a < length acc then int (acc ! (k - a)) else - 1)"
    unfolding irow using k by (rule row_nth)
  have dk: "drow ! k = (if a \<le> k \<and> k - a < length acc then probed_dist probe (acc ! (k - a)) else 0)"
    unfolding drow using k by (rule row_nth)
  from ik assms(4) have k1: "a \<le> k" and k2: "k - a < length acc"
    by (auto split: if_splits)
  let ?n = "acc ! (k - a)"
  have n: "a + (k - a) \<le> ?n \<and> ?n < ind_3 \<and> accepted probe ?n"
    using k2 unfolding acc_def a_def by (rule filter_upt_nth)
  show ?thesis
    using n k1 k2 ik dk by (intro exI [of _ ?n]) (auto simp: a_def acc_def)
qed

subsection \<open>The two builders\<close>

lemma get_3_body_arrays_Some:
  assumes "get_3_body_arrays ba bp c = Some t"
  shows "bond_array_3 t = take (ind_3_of c ba) ba \<and>
         cross_rows (row_probe_scalar (take (ind_3_of c ba) bp) c) (ind_3_of c ba)
             [0..<ind_3_of c ba]
           = Some (triplet_counts t, cross_bond_inds t, cross_bond_dists t)"
  using assms
  by (auto simp: get_3_body_arrays_def Let_def ind_3_scalar' bind_eq_Some_conv)

lemma accepted_scalar:
  "accepted (probe_scalar bp3 c pos1) n \<longleftrightarrow> n < length bp3 \<and> norm3 (vsub (bp3 ! n) pos1) < c"
  by (auto simp: accepted_def probe_scalar_def py_get_def Let_def)

lemma probed_dist_scalar:
  "n < length bp3 \<Longrightarrow> probed_dist (probe_scalar bp3 c pos1) n = norm3 (vsub (bp3 ! n) pos1)"
  by (simp add: probed_dist_def probe_scalar_def py_get_def Let_def)

lemma get_3_body_arrays_sepcut_Some:
  assumes "get_3_body_arrays_sepcut ba bp ctype et cutoff_3 nspecie specie_mask cut3b_mask
             = Some t"
  shows "\<exists>bc cut3. py_get specie_mask ctype = Some bc \<and> py_max cutoff_3 = Some cut3 \<and>
           bond_array_3 t = take (ind_3_of cut3 ba) ba \<and>
           cross_rows (row_probe_sepcut ba (take (ind_3_of cut3 ba) bp) et cutoff_3 nspecie
                         specie_mask cut3b_mask (nspecie * bc))
               (ind_3_of cut3 ba) [0..<ind_3_of cut3 ba]
             = Some (triplet_counts t, cross_bond_inds t, cross_bond_dists t)"
  using assms
  by (auto simp: get_3_body_arrays_sepcut_def Let_def ind_3_sepcut bind_eq_Some_conv)

lemma row_probe_sepcut_Some:
  assumes "row_probe_sepcut ba bp3 et cutoff_3 nspecie specie_mask cut3b_mask (nspecie * bc) m
             = Some probe"
    and "py_get specie_mask ctype = Some bc"
  shows "\<exists>bm cut_m pos1. m < length et \<and> py_get specie_mask (et ! m) = Some bm \<and>
           resolved_cutoff_3 cutoff_3 nspecie specie_mask cut3b_mask (et ! m) ctype = Some cut_m \<and>
           probe = probe_sepcut ba bp3 et cutoff_3 specie_mask cut3b_mask (nspecie * bc)
                     (nspecie * bm) m cut_m pos1"
  using assms
  by (auto simp: row_probe_sepcut_def bind_eq_Some_conv Let_def resolved_cutoff_3_def py_get_def
      split: if_splits)

lemma accepted_sepcut:
  assumes "accepted (probe_sepcut ba bp3 et cutoff_3 specie_mask cut3b_mask (nspecie * bc)
                       (nspecie * bm) m cut_m pos1) n"
    and "py_get specie_mask ctype = Some bc" and "m < length et"
    and "py_get specie_mask (et ! m) = Some bm" and "m < length ba" and "n < length ba"
  shows "\<exists>cut_n cut_mn. n < length et \<and>
           resolved_cutoff_3 cutoff_3 nspecie specie_mask cut3b_mask (et ! n) ctype = Some cut_n \<and>
           resolved_cutoff_3 cutoff_3 nspecie specie_mask cut3b_mask (et ! n) (et ! m)
             = Some cut_mn \<and>
           fst (ba ! m) < cut_m \<and> fst (ba ! n) < cut_n \<and>
           probed_dist (probe_sepcut ba bp3 et cutoff_3 specie_mask cut3b_mask (nspecie * bc)
                       (nspecie * bm) m cut_m pos1) n < cut_mn"
  using assms
  by (auto simp: accepted_def probed_dist_def probe_sepcut_def bind_eq_Some_conv Let_def
      resolved_cutoff_3_def py_get_def split: if_splits option.splits)

subsection \<open>The trivial mask\<close>

lemma cross_row_cong:
  "\<forall>n \<in> set ns. probe n = probe' n \<Longrightarrow>
     cross_row probe ns cnt trips irow drow = cross_row probe' ns cnt trips irow drow"
proof (induction ns arbitrary: cnt trips irow drow)
  case Nil
  then show ?case by simp
next
  case (Cons n ns)
  have ih: "cross_row probe ns cnt' trips' irow' drow'
              = cross_row probe' ns cnt' trips' irow' drow'" for cnt' trips' irow' drow'
    using Cons.prems by (intro Cons.IH) simp
  have p: "probe n = probe' n" using Cons.prems by simp
  show ?case
    by (cases "probe' n") (auto simp: p ih)
qed

lemma cross_rows_cong:
  assumes "\<forall>m \<in> set ms. (row_probe m = None \<and> row_probe' m = None) \<or>
             (\<exists>p p'. row_probe m = Some p \<and> row_probe' m = Some p' \<and>
                (\<forall>n \<in> set [m + 1..<ind_3]. p n = p' n))"
  shows "cross_rows row_probe ind_3 ms = cross_rows row_probe' ind_3 ms"
  using assms
proof (induction ms)
  case Nil
  then show ?case by simp
next
  case (Cons m ms)
  then have ih: "cross_rows row_probe ind_3 ms = cross_rows row_probe' ind_3 ms"
    by simp
  from Cons.prems have "(row_probe m = None \<and> row_probe' m = None) \<or>
             (\<exists>p p'. row_probe m = Some p \<and> row_probe' m = Some p' \<and>
                (\<forall>n \<in> set [m + 1..<ind_3]. p n = p' n))"
    by simp
  then show ?case
  proof
    assume "row_probe m = None \<and> row_probe' m = None"
    then show ?thesis by simp
  next
    assume "\<exists>p p'. row_probe m = Some p \<and> row_probe' m = Some p' \<and>
                (\<forall>n \<in> set [m + 1..<ind_3]. p n = p' n)"
    then obtain p p' where p: "row_probe m = Some p" "row_probe' m = Some p'"
      and e: "\<forall>n \<in> set [m + 1..<ind_3]. p n = p' n"
      by blast
    show ?thesis
      using p ih cross_row_cong [OF e] by simp
  qed
qed

lemma py_max_single: "py_max [c] = Some c"
  by (simp add: py_max_def)

lemma probe_trivial_mask:
  assumes "\<forall>e \<in> set et. py_get specie_mask e = Some 0"
    and "m < length ba" and "n < length ba" and "length ba \<le> length et"
    and "fst (ba ! m) < c" and "fst (ba ! n) < c"
  shows "probe_sepcut ba bp3 et [c] specie_mask [0] 0 0 m c pos1 n = probe_scalar bp3 c pos1 n"
proof -
  have en: "py_get et (int n) = Some (et ! n)" "py_get specie_mask (et ! n) = Some 0"
    using assms(1,3,4) by (simp_all add: py_get_nat)
  have rm: "py_get ba (int m) = Some (ba ! m)" "py_get ba (int n) = Some (ba ! n)"
    using assms(2,3) by (simp_all add: py_get_nat)
  have rc: "resolve_cut3 [c] [0] 0 0 = Some c"
    by (simp add: resolve_cut3_def py_get_def)
  show ?thesis
    using assms(5,6)
    by (cases "py_get bp3 (int n)")
       (simp_all add: probe_sepcut_def probe_scalar_def en rm rc Let_def)
qed

lemma sepcut_3_body_trivial_mask:
  assumes "py_get specie_mask ctype = Some 0"
    and "\<forall>e \<in> set et. py_get specie_mask e = Some 0"
    and "length ba \<le> length et"
    and "\<forall>row \<in> set ba. fst row \<noteq> c"
  shows "get_3_body_arrays_sepcut ba bp ctype et [c] nspecie specie_mask [0]
           = get_3_body_arrays ba bp c"
proof -
  let ?i = "ind_3_of c ba"
  let ?bp3 = "take ?i bp"
  have below: "fst (ba ! m) < c" if "m < ?i" for m
  proof -
    have "m < length ba" using that ind_3_le [of c ba] by simp
    then have "fst (ba ! m) \<noteq> c" using assms(4) by simp
    with ind_3_below [OF that] show ?thesis by simp
  qed
  have rows: "\<forall>m \<in> set [0..<?i].
      (row_probe_sepcut ba ?bp3 et [c] nspecie specie_mask [0] (nspecie * 0) m = None \<and>
       row_probe_scalar ?bp3 c m = None) \<or>
      (\<exists>p p'. row_probe_sepcut ba ?bp3 et [c] nspecie specie_mask [0] (nspecie * 0) m = Some p \<and>
         row_probe_scalar ?bp3 c m = Some p' \<and> (\<forall>n \<in> set [m + 1..<?i]. p n = p' n))"
  proof
    fix m assume "m \<in> set [0..<?i]"
    then have m: "m < ?i" by simp
    then have ml: "m < length ba" using ind_3_le [of c ba] by simp
    have em: "py_get et (int m) = Some (et ! m)" "py_get specie_mask (et ! m) = Some 0"
      using assms(2,3) ml by (simp_all add: py_get_nat)
    have rc: "resolve_cut3 [c] [0] 0 0 = Some c"
      by (simp add: resolve_cut3_def py_get_def)
    show "(row_probe_sepcut ba ?bp3 et [c] nspecie specie_mask [0] (nspecie * 0) m = None \<and>
       row_probe_scalar ?bp3 c m = None) \<or>
      (\<exists>p p'. row_probe_sepcut ba ?bp3 et [c] nspecie specie_mask [0] (nspecie * 0) m = Some p \<and>
         row_probe_scalar ?bp3 c m = Some p' \<and> (\<forall>n \<in> set [m + 1..<?i]. p n = p' n))"
    proof (cases "py_get ?bp3 (int m)")
      case None
      then show ?thesis
        by (simp add: row_probe_sepcut_def row_probe_scalar_def)
    next
      case (Some pos1)
      have "\<forall>n \<in> set [m + 1..<?i].
              probe_sepcut ba ?bp3 et [c] specie_mask [0] 0 0 m c pos1 n
                = probe_scalar ?bp3 c pos1 n"
      proof
        fix n assume "n \<in> set [m + 1..<?i]"
        then have n: "n < ?i" by simp
        then have nl: "n < length ba" using ind_3_le [of c ba] by simp
        show "probe_sepcut ba ?bp3 et [c] specie_mask [0] 0 0 m c pos1 n
                = probe_scalar ?bp3 c pos1 n"
          using assms(2) ml nl assms(3) below [OF m] below [OF n]
          by (rule probe_trivial_mask)
      qed
      then show ?thesis
        using Some em rc
        by (simp add: row_probe_sepcut_def row_probe_scalar_def Let_def)
    qed
  qed
  have "cross_rows (row_probe_sepcut ba ?bp3 et [c] nspecie specie_mask [0] (nspecie * 0)) ?i
          [0..<?i]
        = cross_rows (row_probe_scalar ?bp3 c) ?i [0..<?i]"
    using rows by (rule cross_rows_cong)
  then show ?thesis
    using assms(1)
    by (simp add: get_3_body_arrays_sepcut_def get_3_body_arrays_def Let_def py_max_single
        ind_3_sepcut ind_3_scalar')
qed

subsection \<open>Entries of the table\<close>

lemma row_probe_scalar_Some:
  "row_probe_scalar bp3 c m = Some probe \<Longrightarrow>
     \<exists>pos1. py_get bp3 (int m) = Some pos1 \<and> probe = probe_scalar bp3 c pos1"
  by (auto simp: row_probe_scalar_def bind_eq_Some_conv)

lemma length_accepted_le: "length (filter P [m + 1..<ind_3]) \<le> ind_3 - (m + 1)"
  using length_filter_le [of P "[m + 1..<ind_3]"] by simp

lemma scalar_table_entry:
  assumes t: "get_3_body_arrays ba bp cutoff_3 = Some t"
    and m: "m < length (bond_array_3 t)" and k: "k < length (bond_array_3 t)"
    and e: "cross_bond_inds t ! m ! k \<noteq> - 1"
  shows "m < k \<and> int k \<le> cross_bond_inds t ! m ! k \<and>
         cross_bond_inds t ! m ! k < int (length (bond_array_3 t)) \<and>
         fst (bond_array_3 t ! m) \<le> cutoff_3 \<and> fst (bond_array_3 t ! k) \<le> cutoff_3 \<and>
         fst (bond_array_3 t ! nat (cross_bond_inds t ! m ! k)) \<le> cutoff_3 \<and>
         cross_bond_dists t ! m ! k < cutoff_3"
proof -
  define i where "i = ind_3_of cutoff_3 ba"
  have ba3: "bond_array_3 t = take i ba"
    and rows: "cross_rows (row_probe_scalar (take i bp) cutoff_3) i [0..<i]
                 = Some (triplet_counts t, cross_bond_inds t, cross_bond_dists t)"
    using get_3_body_arrays_Some [OF t] by (simp_all add: i_def)
  have len: "length (bond_array_3 t) = i"
    using ind_3_le [of cutoff_3 ba] by (simp add: ba3 i_def)
  have mi: "m < i" and ki: "k < i"
    using m k len by simp_all
  obtain probe where rp: "row_probe_scalar (take i bp) cutoff_3 m = Some probe"
    and ok: "row_ok probe i m (triplet_counts t ! m) (cross_bond_inds t ! m)
               (cross_bond_dists t ! m)"
    using cross_rows_upt [OF rows] mi by blast
  obtain pos1 where pr: "probe = probe_scalar (take i bp) cutoff_3 pos1"
    using row_probe_scalar_Some [OF rp] by blast
  obtain n where n: "m < k" "k \<le> n" "n < i" "accepted probe n"
    "cross_bond_inds t ! m ! k = int n"
    "cross_bond_dists t ! m ! k = probed_dist probe n"
    using row_ok_entry [OF ok mi ki e] by blast
  have acc: "n < length (take i bp)" "norm3 (vsub (take i bp ! n) pos1) < cutoff_3"
    using n(4) by (auto simp: pr accepted_scalar)
  have cd: "cross_bond_dists t ! m ! k < cutoff_3"
    using acc by (simp add: n(6) pr probed_dist_scalar)
  have below: "fst (bond_array_3 t ! j) \<le> cutoff_3" if "j < i" for j
    using that ind_3_below [of j cutoff_3 ba] by (simp add: ba3 i_def)
  show ?thesis
    using n(1,2,3,5) cd below [OF mi] below [OF ki] below [OF n(3)] len
    by simp
qed

lemma sepcut_table_entry:
  assumes t: "get_3_body_arrays_sepcut ba bp ctype et cutoff_3 nspecie specie_mask cut3b_mask
                = Some t"
    and m: "m < length (bond_array_3 t)" and k: "k < length (bond_array_3 t)"
    and e: "cross_bond_inds t ! m ! k \<noteq> - 1"
  shows "m < k \<and> int k \<le> cross_bond_inds t ! m ! k \<and>
         cross_bond_inds t ! m ! k < int (length (bond_array_3 t)) \<and>
         (\<exists>cut_m cut_n cut_mn.
            resolved_cutoff_3 cutoff_3 nspecie specie_mask cut3b_mask (et ! m) ctype
              = Some cut_m \<and>
            resolved_cutoff_3 cutoff_3 nspecie specie_mask cut3b_mask
              (et ! nat (cross_bond_inds t ! m ! k)) ctype = Some cut_n \<and>
            resolved_cutoff_3 cutoff_3 nspecie specie_mask cut3b_mask
              (et ! nat (cross_bond_inds t ! m ! k)) (et ! m) = Some cut_mn \<and>
            fst (bond_array_3 t ! m) < cut_m \<and>
            fst (bond_array_3 t ! nat (cross_bond_inds t ! m ! k)) < cut_n \<and>
            cross_bond_dists t ! m ! k < cut_mn)"
proof -
  obtain bc cut3 where bc: "py_get specie_mask ctype = Some bc"
    and c3: "py_max cutoff_3 = Some cut3"
    and ba3: "bond_array_3 t = take (ind_3_of cut3 ba) ba"
    and rows0: "cross_rows (row_probe_sepcut ba (take (ind_3_of cut3 ba) bp) et cutoff_3 nspecie
                         specie_mask cut3b_mask (nspecie * bc))
               (ind_3_of cut3 ba) [0..<ind_3_of cut3 ba]
             = Some (triplet_counts t, cross_bond_inds t, cross_bond_dists t)"
    using get_3_body_arrays_sepcut_Some [OF t] by blast
  define i where "i = ind_3_of cut3 ba"
  have rows: "cross_rows (row_probe_sepcut ba (take i bp) et cutoff_3 nspecie
                         specie_mask cut3b_mask (nspecie * bc)) i [0..<i]
             = Some (triplet_counts t, cross_bond_inds t, cross_bond_dists t)"
    using rows0 by (simp add: i_def)
  have ile: "i \<le> length ba" using ind_3_le [of cut3 ba] by (simp add: i_def)
  have len: "length (bond_array_3 t) = i"
    using ile by (simp add: ba3 i_def)
  have mi: "m < i" and ki: "k < i"
    using m k len by simp_all
  obtain probe where rp: "row_probe_sepcut ba (take i bp) et cutoff_3 nspecie
                         specie_mask cut3b_mask (nspecie * bc) m = Some probe"
    and ok: "row_ok probe i m (triplet_counts t ! m) (cross_bond_inds t ! m)
               (cross_bond_dists t ! m)"
    using cross_rows_upt [OF rows] mi by blast
  obtain bm cut_m pos1 where me: "m < length et"
    and bm: "py_get specie_mask (et ! m) = Some bm"
    and cm: "resolved_cutoff_3 cutoff_3 nspecie specie_mask cut3b_mask (et ! m) ctype
               = Some cut_m"
    and pr: "probe = probe_sepcut ba (take i bp) et cutoff_3 specie_mask cut3b_mask
               (nspecie * bc) (nspecie * bm) m cut_m pos1"
    using row_probe_sepcut_Some [OF rp bc] by blast
  obtain n where n: "m < k" "k \<le> n" "n < i" "accepted probe n"
    "cross_bond_inds t ! m ! k = int n"
    "cross_bond_dists t ! m ! k = probed_dist probe n"
    using row_ok_entry [OF ok mi ki e] by blast
  have ml: "m < length ba" and nl: "n < length ba"
    using mi n(3) ile by simp_all
  obtain cut_n cut_mn where
    cn: "resolved_cutoff_3 cutoff_3 nspecie specie_mask cut3b_mask (et ! n) ctype = Some cut_n"
    and cmn: "resolved_cutoff_3 cutoff_3 nspecie specie_mask cut3b_mask (et ! n) (et ! m)
                = Some cut_mn"
    and lt: "fst (ba ! m) < cut_m" "fst (ba ! n) < cut_n" "probed_dist probe n < cut_mn"
    using accepted_sepcut [OF n(4) [unfolded pr] bc me bm ml nl] pr by blast
  have at: "bond_array_3 t ! m = ba ! m" "bond_array_3 t ! n = ba ! n"
    using mi n(3) by (simp_all add: ba3 i_def)
  have "resolved_cutoff_3 cutoff_3 nspecie specie_mask cut3b_mask (et ! m) ctype
              = Some cut_m \<and>
            resolved_cutoff_3 cutoff_3 nspecie specie_mask cut3b_mask
              (et ! nat (cross_bond_inds t ! m ! k)) ctype = Some cut_n \<and>
            resolved_cutoff_3 cutoff_3 nspecie specie_mask cut3b_mask
              (et ! nat (cross_bond_inds t ! m ! k)) (et ! m) = Some cut_mn \<and>
            fst (bond_array_3 t ! m) < cut_m \<and>
            fst (bond_array_3 t ! nat (cross_bond_inds t ! m ! k)) < cut_n \<and>
            cross_bond_dists t ! m ! k < cut_mn"
    using cm cn cmn lt at by (simp add: n(5,6))
  then show ?thesis
    using n(1,2,3,5) len by (simp only: simp_thms) (auto simp: n(5))
qed

text \<open>
  C3 (amended): for a table built by either builder, whenever \<open>cross_bond_inds[m, k] \<noteq> -1\<close>,
  then \<open>k > m\<close> and the stored index \<open>n = cross_bond_inds[m, k]\<close> satisfies \<open>k \<le> n < ind_3\<close>.
  In the scalar builder, when no retained bond distance equals the cutoff, the bond distances of
  rows \<open>m\<close>, \<open>k\<close> and \<open>n\<close> are below the cutoff. In the species-resolved builder the bond
  distances of rows \<open>m\<close> and \<open>n\<close> (the stored atom, not the column \<open>k\<close>) are below their
  resolved cutoffs.
\<close>

theorem triplet_table_invariant:
  "(get_3_body_arrays ba bp cutoff_3 = Some t \<longrightarrow>
      (\<forall>m k. m < length (bond_array_3 t) \<longrightarrow> k < length (bond_array_3 t) \<longrightarrow>
         cross_bond_inds t ! m ! k \<noteq> - 1 \<longrightarrow>
         m < k \<and> int k \<le> cross_bond_inds t ! m ! k \<and>
         cross_bond_inds t ! m ! k < int (length (bond_array_3 t)) \<and>
         ((\<forall>row \<in> set (bond_array_3 t). fst row \<noteq> cutoff_3) \<longrightarrow>
            fst (bond_array_3 t ! m) < cutoff_3 \<and> fst (bond_array_3 t ! k) < cutoff_3 \<and>
            fst (bond_array_3 t ! nat (cross_bond_inds t ! m ! k)) < cutoff_3))) \<and>
   (get_3_body_arrays_sepcut ba' bp' ctype et cutoffs nspecie specie_mask cut3b_mask = Some t'
      \<longrightarrow>
      (\<forall>m k. m < length (bond_array_3 t') \<longrightarrow> k < length (bond_array_3 t') \<longrightarrow>
         cross_bond_inds t' ! m ! k \<noteq> - 1 \<longrightarrow>
         m < k \<and> int k \<le> cross_bond_inds t' ! m ! k \<and>
         cross_bond_inds t' ! m ! k < int (length (bond_array_3 t')) \<and>
         (\<exists>cut_m cut_n.
            resolved_cutoff_3 cutoffs nspecie specie_mask cut3b_mask (et ! m) ctype
              = Some cut_m \<and>
            resolved_cutoff_3 cutoffs nspecie specie_mask cut3b_mask
              (et ! nat (cross_bond_inds t' ! m ! k)) ctype = Some cut_n \<and>
            fst (bond_array_3 t' ! m) < cut_m \<and>
            fst (bond_array_3 t' ! nat (cross_bond_inds t' ! m ! k)) < cut_n)))"
proof (intro conjI impI allI)
  fix m k
  assume t: "get_3_body_arrays ba bp cutoff_3 = Some t"
    and m: "m < length (bond_array_3 t)" and k: "k < length (bond_array_3 t)"
    and e: "cross_bond_inds t ! m ! k \<noteq> - 1"
  note entry = scalar_table_entry [OF t m k e]
  show "m < k" "int k \<le> cross_bond_inds t ! m ! k"
    "cross_bond_inds t ! m ! k < int (length (bond_array_3 t))"
    using entry by simp_all
  assume ne: "\<forall>row \<in> set (bond_array_3 t). fst row \<noteq> cutoff_3"
  have n: "nat (cross_bond_inds t ! m ! k) < length (bond_array_3 t)"
    using entry by linarith
  have "fst (bond_array_3 t ! j) \<noteq> cutoff_3" if "j < length (bond_array_3 t)" for j
    using ne that by simp
  from this [OF m] this [OF k] this [OF n]
  show "fst (bond_array_3 t ! m) < cutoff_3" "fst (bond_array_3 t ! k) < cutoff_3"
    "fst (bond_array_3 t ! nat (cross_bond_inds t ! m ! k)) < cutoff_3"
    using entry by simp_all
next
  fix m k
  assume t: "get_3_body_arrays_sepcut ba' bp' ctype et cutoffs nspecie specie_mask cut3b_mask
               = Some t'"
    and m: "m < length (bond_array_3 t')" and k: "k < length (bond_array_3 t')"
    and e: "cross_bond_inds t' ! m ! k \<noteq> - 1"
  note entry = sepcut_table_entry [OF t m k e]
  show "m < k" "int k \<le> cross_bond_inds t' ! m ! k"
    "cross_bond_inds t' ! m ! k < int (length (bond_array_3 t'))"
    using entry by simp_all
  show "\<exists>cut_m cut_n.
            resolved_cutoff_3 cutoffs nspecie specie_mask cut3b_mask (et ! m) ctype
              = Some cut_m \<and>
            resolved_cutoff_3 cutoffs nspecie specie_mask cut3b_mask
              (et ! nat (cross_bond_inds t' ! m ! k)) ctype = Some cut_n \<and>
            fst (bond_array_3 t' ! m) < cut_m \<and>
            fst (bond_array_3 t' ! nat (cross_bond_inds t' ! m ! k)) < cut_n"
    using entry by blast
qed

subsection \<open>Three atoms on a line\<close>

text \<open>
  Atoms at 0, 1 and 2 on the x axis in a cubic cell of side 10, centred on the first; 2-body
  cutoff 3. With the 3-body cutoff 2 the second neighbour sits exactly at the cutoff.
\<close>

lemma chain_filled:
  "fill_2_body [(0, 0, 0), (1, 0, 0), (2, 0, 0)] 0 (cubic 10) 3 [1, 1, 1] [- 1, 0, 1]
     = Some [((1, (1, 0, 0)), (1, 0, 0), 1, 1), ((2, (1, 0, 0)), (2, 0, 0), 1, 2)]"
  by (subst fill_2_body_closed [where pos_atom = "(0, 0, 0)"])
     (simp_all add: py_get_def neighbours_of_def image_shifts_default cubic_def qualifies_sq
        bond_of_def int8_small upt_rec)

lemma stable_argsort_chain: "stable_argsort [1, 2] = [0, 1]"
  by (simp add: stable_argsort_def upt_rec)

lemma chain_arrays:
  "get_2_body_arrays stable_argsort [(0, 0, 0), (1, 0, 0), (2, 0, 0)] 0 (cubic 10) 3 [1, 1, 1]
       [- 1, 0, 1]
     = Some \<lparr>bond_array_2 = [(1, (1, 0, 0)), (2, (1, 0, 0))],
             bond_positions_2 = [(1, 0, 0), (2, 0, 0)],
             etypes = [1, 1], bond_indices = [1, 2]\<rparr>"
  by (simp add: get_2_body_arrays_def chain_filled sort_arrays_eq [OF argsort_spec_stable]
        stable_argsort_chain permuted_def)

lemma chain_triplets:
  "get_3_body_arrays [(1, (1, 0, 0)), (2, (1, 0, 0))] [(1, 0, 0), (2, 0, 0)] 2
     = Some \<lparr>bond_array_3 = [(1, (1, 0, 0)), (2, (1, 0, 0))],
             cross_bond_inds = [[- 1, 1], [- 1, - 1]],
             cross_bond_dists = [[0, 1], [0, 0]],
             triplet_counts = [1, 0]\<rparr>"
  by (simp add: get_3_body_arrays_def Let_def row_probe_scalar_def probe_scalar_def py_get_def
        upt_rec int8_small)

lemma chain_triplets_open:
  "get_3_body_arrays [(1, (1, 0, 0)), (2, (1, 0, 0))] [(1, 0, 0), (2, 0, 0)] (5 / 2)
     = Some \<lparr>bond_array_3 = [(1, (1, 0, 0)), (2, (1, 0, 0))],
             cross_bond_inds = [[- 1, 1], [- 1, - 1]],
             cross_bond_dists = [[0, 1], [0, 0]],
             triplet_counts = [1, 0]\<rparr>"
  by (simp add: get_3_body_arrays_def Let_def row_probe_scalar_def probe_scalar_def py_get_def
        upt_rec int8_small)

lemma chain_triplets_sepcut:
  "get_3_body_arrays_sepcut [(1, (1, 0, 0)), (2, (1, 0, 0))] [(1, 0, 0), (2, 0, 0)] 1 [1, 1] [2]
       1 [0, 0] [0]
     = Some \<lparr>bond_array_3 = [(1, (1, 0, 0)), (2, (1, 0, 0))],
             cross_bond_inds = [[- 1, - 1], [- 1, - 1]],
             cross_bond_dists = [[0, 0], [0, 0]],
             triplet_counts = [0, 0]\<rparr>"
  by (simp add: get_3_body_arrays_sepcut_def Let_def row_probe_sepcut_def probe_sepcut_def
        resolve_cut3_def py_max_def py_get_def upt_rec int8_small)

lemma chain_triplets_sepcut_wide:
  "get_3_body_arrays_sepcut [(1, (1, 0, 0)), (2, (1, 0, 0))] [(1, 0, 0), (2, 0, 0)] 1 [1, 1] [3]
       1 [0, 0] [0]
     = Some \<lparr>bond_array_3 = [(1, (1, 0, 0)), (2, (1, 0, 0))],
             cross_bond_inds = [[- 1, 1], [- 1, - 1]],
             cross_bond_dists = [[0, 1], [0, 0]],
             triplet_counts = [1, 0]\<rparr>"
  by (simp add: get_3_body_arrays_sepcut_def Let_def row_probe_sepcut_def probe_sepcut_def
        resolve_cut3_def py_max_def py_get_def upt_rec int8_small)

lemma mask_118: "0 \<le> s \<Longrightarrow> s < 118 \<Longrightarrow> py_get (replicate 118 0) s = Some (0 :: int)"
  by (simp add: py_get_def)


theorem triplet_table_invariant_witness:
  "get_3_body_arrays [(1, (1, 0, 0)), (2, (1, 0, 0))] [(1, 0, 0), (2, 0, 0)] (5 / 2)
     = Some \<lparr>bond_array_3 = [(1, (1, 0, 0)), (2, (1, 0, 0))],
             cross_bond_inds = [[- 1, 1], [- 1, - 1]],
             cross_bond_dists = [[0, 1], [0, 0]],
             triplet_counts = [1, 0]\<rparr> \<and>
   get_3_body_arrays_sepcut [(1, (1, 0, 0)), (2, (1, 0, 0))] [(1, 0, 0), (2, 0, 0)] 1 [1, 1] [3]
       1 [0, 0] [0]
     = Some \<lparr>bond_array_3 = [(1, (1, 0, 0)), (2, (1, 0, 0))],
             cross_bond_inds = [[- 1, 1], [- 1, - 1]],
             cross_bond_dists = [[0, 1], [0, 0]],
             triplet_counts = [1, 0]\<rparr> \<and>
   [[- 1, 1], [- 1, - 1 :: int]] ! 0 ! 1 \<noteq> - 1 \<and>
   fst (1 :: real, (1 :: real, 0 :: real, 0 :: real)) \<noteq> 5 / 2 \<and>
   fst (2 :: real, (1 :: real, 0 :: real, 0 :: real)) \<noteq> 5 / 2 \<and>
   (0 :: nat) < 1 \<and> int 1 \<le> 1 \<and> (1 :: int) < 2 \<and>
   (1 :: real) < 5 / 2 \<and> (2 :: real) < 5 / 2 \<and>
   (\<exists>cut_m cut_n.
      resolved_cutoff_3 [3] 1 [0, 0] [0] ([1, 1] ! 0) 1 = Some cut_m \<and>
      resolved_cutoff_3 [3] 1 [0, 0] [0] ([1, 1] ! 1) 1 = Some cut_n \<and>
      (1 :: real) < cut_m \<and> (2 :: real) < cut_n)"
proof -
  let ?t = "\<lparr>bond_array_3 = [(1 :: real, (1 :: real, 0 :: real, 0 :: real)), (2, (1, 0, 0))],
             cross_bond_inds = [[- 1, 1], [- 1, - 1]],
             cross_bond_dists = [[0, 1], [0, 0]],
             triplet_counts = [1, 0]\<rparr>"
  note inv = triplet_table_invariant [of "[(1, (1, 0, 0)), (2, (1, 0, 0))]"
      "[(1, 0, 0), (2, 0, 0)]" "5 / 2" ?t "[(1, (1, 0, 0)), (2, (1, 0, 0))]"
      "[(1, 0, 0), (2, 0, 0)]" 1 "[1, 1]" "[3]" 1 "[0, 0]" "[0]" ?t]
  have a: "\<exists>cut_m cut_n.
      resolved_cutoff_3 [3] 1 [0, 0] [0] ([1, 1] ! 0) 1 = Some cut_m \<and>
      resolved_cutoff_3 [3] 1 [0, 0] [0] ([1, 1] ! 1) 1 = Some cut_n \<and>
      (1 :: real) < cut_m \<and> (2 :: real) < cut_n"
    using inv [THEN conjunct2, rule_format, OF chain_triplets_sepcut_wide, of 0 1]
    by auto
  have b: "(0 :: nat) < 1 \<and> int 1 \<le> 1 \<and> (1 :: int) < 2 \<and>
           (1 :: real) < 5 / 2 \<and> (2 :: real) < 5 / 2"
    using inv [THEN conjunct1, rule_format, OF chain_triplets_open, of 0 1]
    by simp
  show ?thesis
    using a b chain_triplets_open chain_triplets_sepcut_wide
    by simp
qed

subsection \<open>Two species groups\<close>

text \<open>
  Neighbours at distances 1, 3/2 and 2 on the x axis, of species 0, 1 and 0, around a central atom
  of species 0. Species 0 and 1 are groups 0 and 1; the pair (0, 0) has the 3-body cutoff 3, every
  pair with group 1 the cutoff 1.
\<close>

lemma species_triplets_sepcut:
  "get_3_body_arrays_sepcut [(1, (1, 0, 0)), (3 / 2, (1, 0, 0)), (2, (1, 0, 0))]
       [(1, 0, 0), (3 / 2, 0, 0), (2, 0, 0)] 0 [0, 1, 0] [3, 1] 2 [0, 1] [0, 1, 1, 1]
     = Some \<lparr>bond_array_3 = [(1, (1, 0, 0)), (3 / 2, (1, 0, 0)), (2, (1, 0, 0))],
             cross_bond_inds = [[- 1, 2, - 1], [- 1, - 1, - 1], [- 1, - 1, - 1]],
             cross_bond_dists = [[0, 1, 0], [0, 0, 0], [0, 0, 0]],
             triplet_counts = [1, 0, 0]\<rparr>"
  by (simp add: get_3_body_arrays_sepcut_def Let_def row_probe_sepcut_def probe_sepcut_def
        resolve_cut3_def py_max_def py_get_def upt_rec int8_small)

text \<open>
  C3 (as stated, refuted): accepted neighbours are stored densely from column \<open>m + 1\<close> on, so a
  column is not the atom stored in it. Row 0 rejects neighbour 1 (its bond distance 3/2 is not
  below its cutoff 1) and stores neighbour 2 in column 1: \<open>cross_bond_inds[0, 1] = 2 \<noteq> -1\<close>
  while \<open>bond_array_3[1, 0] = 3/2\<close> is not below the cutoff 1 resolved for neighbour 1.
\<close>

theorem triplet_column_not_atom:
  "get_3_body_arrays_sepcut [(1, (1, 0, 0)), (3 / 2, (1, 0, 0)), (2, (1, 0, 0))]
       [(1, 0, 0), (3 / 2, 0, 0), (2, 0, 0)] 0 [0, 1, 0] [3, 1] 2 [0, 1] [0, 1, 1, 1]
     = Some \<lparr>bond_array_3 = [(1, (1, 0, 0)), (3 / 2, (1, 0, 0)), (2, (1, 0, 0))],
             cross_bond_inds = [[- 1, 2, - 1], [- 1, - 1, - 1], [- 1, - 1, - 1]],
             cross_bond_dists = [[0, 1, 0], [0, 0, 0], [0, 0, 0]],
             triplet_counts = [1, 0, 0]\<rparr> \<and>
   [[- 1, 2, - 1], [- 1, - 1, - 1], [- 1, - 1, - 1 :: int]] ! 0 ! 1 \<noteq> - 1 \<and>
   resolved_cutoff_3 [3, 1] 2 [0, 1] [0, 1, 1, 1] ([0, 1, 0] ! 1) 0 = Some 1 \<and>
   \<not> fst ([(1 :: real, (1 :: real, 0 :: real, 0 :: real)), (3 / 2, (1, 0, 0)), (2, (1, 0, 0))] ! 1)
       < 1"
  by (simp add: species_triplets_sepcut resolved_cutoff_3_def resolve_cut3_def py_get_def)

subsection \<open>A neighbour exactly at the cutoff\<close>

text \<open>
  The scalar builder cuts the list at the first distance above the cutoff and tests the cross
  distance only; the species-resolved builder also asks both bond distances to be below their
  cutoffs. With one species group (every species label mapped to group 0, a one-entry pair table
  and a one-entry cutoff array) the two enumerators agree, for a valid central atom, a species
  label per atom and a sweep of at most three entries; the two triplet builders agree when no
  bond distance equals the cutoff.
\<close>

theorem trivial_mask_builders:
  "(- int (length positions) \<le> atom \<longrightarrow> atom < int (length positions) \<longrightarrow>
    length positions \<le> length species \<longrightarrow>
    (\<forall>s \<in> set species. py_get specie_mask s = Some 0) \<longrightarrow> length sweep \<le> 3 \<longrightarrow>
      get_2_body_arrays_sepcut argsort positions atom cell [cutoff_2] species sweep
          nspecie specie_mask [0]
        = get_2_body_arrays argsort positions atom cell cutoff_2 species sweep) \<and>
   (py_get specie_mask ctype = Some 0 \<longrightarrow> (\<forall>e \<in> set et. py_get specie_mask e = Some 0) \<longrightarrow>
    length ba \<le> length et \<longrightarrow> (\<forall>row \<in> set ba. fst row \<noteq> cutoff_3) \<longrightarrow>
      get_3_body_arrays_sepcut ba bp ctype et [cutoff_3] nspecie specie_mask [0]
        = get_3_body_arrays ba bp cutoff_3)"
  using sepcut_2_body_trivial_mask [of positions atom species specie_mask sweep argsort cell
      cutoff_2 nspecie]
    sepcut_3_body_trivial_mask [of specie_mask ctype et ba cutoff_3 bp nspecie]
  by blast

theorem trivial_mask_builders_witness:
  "- int (length [(0 :: real, 0 :: real, 0 :: real), (1, 0, 0), (2, 0, 0)]) \<le> 0 \<and>
   (0 :: int) < int (length [(0 :: real, 0 :: real, 0 :: real), (1, 0, 0), (2, 0, 0)]) \<and>
   length [(0 :: real, 0 :: real, 0 :: real), (1, 0, 0), (2, 0, 0)] \<le> length [1 :: int, 1, 1] \<and>
   length [- 1, 0, 1 :: int] \<le> 3 \<and>
   py_get (replicate 118 (0 :: int)) 1 = Some 0 \<and>
   fst (1 :: real, (1 :: real, 0 :: real, 0 :: real)) \<noteq> 3 \<and>
   fst (2 :: real, (1 :: real, 0 :: real, 0 :: real)) \<noteq> 3 \<and>
   get_2_body_arrays_sepcut stable_argsort [(0, 0, 0), (1, 0, 0), (2, 0, 0)] 0 (cubic 10) [3]
       [1, 1, 1] [- 1, 0, 1] 1 (replicate 118 0) [0]
     = Some \<lparr>bond_array_2 = [(1, (1, 0, 0)), (2, (1, 0, 0))],
             bond_positions_2 = [(1, 0, 0), (2, 0, 0)],
             etypes = [1, 1], bond_indices = [1, 2]\<rparr> \<and>
   get_3_body_arrays_sepcut [(1, (1, 0, 0)), (2, (1, 0, 0))] [(1, 0, 0), (2, 0, 0)] 1 [1, 1] [3]
       1 (replicate 118 0) [0]
     = get_3_body_arrays [(1, (1, 0, 0)), (2, (1, 0, 0))] [(1, 0, 0), (2, 0, 0)] 3"
  using trivial_mask_builders [of "[(0, 0, 0), (1, 0, 0), (2, 0, 0)]" 0 "[1, 1, 1]"
      "replicate 118 0" "[- 1, 0, 1]" stable_argsort "cubic 10" 3 1 1 "[1, 1]"
      "[(1, (1, 0, 0)), (2, (1, 0, 0))]" 3 "[(1, 0, 0), (2, 0, 0)]"]
    chain_arrays
  by (simp add: mask_118)

theorem triplet_bond_at_cutoff:
  "get_2_body_arrays stable_argsort [(0, 0, 0), (1, 0, 0), (2, 0, 0)] 0 (cubic 10) 3 [1, 1, 1]
       [- 1, 0, 1]
     = Some \<lparr>bond_array_2 = [(1, (1, 0, 0)), (2, (1, 0, 0))],
             bond_positions_2 = [(1, 0, 0), (2, 0, 0)],
             etypes = [1, 1], bond_indices = [1, 2]\<rparr> \<and>
   get_3_body_arrays [(1, (1, 0, 0)), (2, (1, 0, 0))] [(1, 0, 0), (2, 0, 0)] 2
     = Some \<lparr>bond_array_3 = [(1, (1, 0, 0)), (2, (1, 0, 0))],
             cross_bond_inds = [[- 1, 1], [- 1, - 1]],
             cross_bond_dists = [[0, 1], [0, 0]],
             triplet_counts = [1, 0]\<rparr> \<and>
   [[- 1, 1], [- 1, - 1 :: int]] ! 0 ! 1 \<noteq> - 1 \<and>
   \<not> fst ([(1 :: real, (1 :: real, 0 :: real, 0 :: real)), (2, (1, 0, 0))] ! 1) < 2"
  by (simp add: chain_arrays chain_triplets)


section \<open>Storage in 8-bit arrays\<close>

subsection \<open>Where a returned row comes from\<close>

lemma record_images_inv:
  assumes "record_images rcut diff_curr cell ss k row = Some row'"
    and "\<forall>e \<in> set row. P e"
    and "\<forall>s \<in> set ss. P (norm3 (image diff_curr cell s), image diff_curr cell s)"
  shows "\<forall>e \<in> set row'. P e"
  using assms
proof (induction ss arbitrary: k row)
  case Nil
  then show ?case by simp
next
  case (Cons s ss)
  show ?case
  proof (cases "qualifies rcut (image diff_curr cell s)")
    case True
    with Cons.prems(1) have k: "k < length row"
      and rec: "record_images rcut diff_curr cell ss (Suc k)
                  (row[k := (norm3 (image diff_curr cell s), image diff_curr cell s)]) = Some row'"
      by (auto simp: record_images_Cons simp del: record_images.simps split: if_splits)
    have sub: "set (row[k := (norm3 (image diff_curr cell s), image diff_curr cell s)])
                 \<subseteq> insert (norm3 (image diff_curr cell s), image diff_curr cell s) (set row)"
      by (rule set_update_subset_insert)
    have here: "P (norm3 (image diff_curr cell s), image diff_curr cell s)"
      using Cons.prems(3) by simp
    have "\<forall>e \<in> set (row[k := (norm3 (image diff_curr cell s), image diff_curr cell s)]). P e"
      using sub here Cons.prems(2) by blast
    from Cons.IH [OF rec this] Cons.prems(3) show ?thesis by simp
  next
    case False
    with Cons.prems(1) have
      rec: "record_images rcut diff_curr cell ss (Suc k) row = Some row'"
      by (simp add: record_images_Cons del: record_images.simps)
    from Cons.IH [OF rec Cons.prems(2)] Cons.prems(3) show ?thesis by simp
  qed
qed

lemma record_images_image_row:
  assumes "record_images rcut diff_curr cell (image_shifts sweep) 0 (replicate k (0, zero3))
             = Some row"
  shows "image_row diff_curr cell sweep row"
  unfolding image_row_def
  by (rule record_images_inv [OF assms]) auto

lemma record_all_rows:
  "record_all cutoff_2 pos_atom cell sweep ps = Some table \<Longrightarrow>
     list_all2 (\<lambda>pos_n row. image_row (vsub pos_n pos_atom) cell sweep row) ps table"
proof (induction ps arbitrary: table)
  case Nil
  then show ?case by simp
next
  case (Cons p ps)
  then show ?case
    by (auto simp: bind_eq_Some_conv Let_def dest: record_images_image_row)
qed

lemma record_all_sepcut_rows:
  "record_all_sepcut cutoff_2 species specie_mask bond_mask bcn pos_atom cell sweep n ps
       = Some table \<Longrightarrow>
     list_all2 (\<lambda>pos_n row. image_row (vsub pos_n pos_atom) cell sweep row) ps table"
proof (induction ps arbitrary: table n)
  case Nil
  then show ?case by simp
next
  case (Cons p ps)
  then show ?case
    by (auto simp: bind_eq_Some_conv dest: record_images_image_row)
qed

lemma fill_row_source:
  assumes "image_row diff_curr cell sweep row" and "b \<in> set (fill_row rcut spec_curr m row)"
  shows "\<exists>s \<in> set (image_shifts sweep). b = bond_of spec_curr m (image diff_curr cell s)"
proof -
  from assms(2) obtain d c where dc: "(d, c) \<in> set row" "d \<noteq> 0"
    and b: "b = ((d, vdiv c d), c, int8 spec_curr, int8 m)"
    by (auto simp: fill_row_def)
  from assms(1) dc obtain s where "s \<in> set (image_shifts sweep)"
    "(d, c) = (norm3 (image diff_curr cell s), image diff_curr cell s)"
    by (auto simp: image_row_def)
  then show ?thesis using b by (auto simp: bond_of_def)
qed

lemma fill_all_source:
  assumes "fill_all cutoff_2 species m0 table = Some filled"
    and "list_all2 (\<lambda>pos_n row. image_row (vsub pos_n pos_atom) cell sweep row) ps table"
    and "b \<in> set filled"
  shows "\<exists>j < length ps. m0 + j < length species \<and>
           (\<exists>s \<in> set (image_shifts sweep).
              b = bond_of (species ! (m0 + j)) (int (m0 + j))
                    (image (vsub (ps ! j) pos_atom) cell s))"
  using assms
proof (induction table arbitrary: m0 ps filled)
  case Nil
  then show ?case by simp
next
  case (Cons row rows)
  from Cons.prems(2) obtain p ps' where ps: "ps = p # ps'"
    and r0: "image_row (vsub p pos_atom) cell sweep row"
    and rs: "list_all2 (\<lambda>pos_n row. image_row (vsub pos_n pos_atom) cell sweep row) ps' rows"
    by (auto simp: list_all2_Cons2)
  from Cons.prems(1) obtain spec_curr rest where
    sp: "py_get species (int m0) = Some spec_curr"
    and rest: "fill_all cutoff_2 species (Suc m0) rows = Some rest"
    and f: "filled = fill_row cutoff_2 spec_curr (int m0) row @ rest"
    by (auto simp: bind_eq_Some_conv)
  have m0: "m0 < length species" "spec_curr = species ! m0"
    using sp by (auto simp: py_get_def Let_def split: if_splits)
  from Cons.prems(3) f consider "b \<in> set (fill_row cutoff_2 spec_curr (int m0) row)"
    | "b \<in> set rest" by auto
  then show ?case
  proof cases
    case 1
    from fill_row_source [OF r0 1] m0 show ?thesis
      by (auto simp: ps intro!: exI [of _ 0])
  next
    case 2
    from Cons.IH [OF rest rs 2] obtain j s where j: "j < length ps'" "Suc m0 + j < length species"
      "s \<in> set (image_shifts sweep)"
      "b = bond_of (species ! (Suc m0 + j)) (int (Suc m0 + j))
             (image (vsub (ps' ! j) pos_atom) cell s)"
      by blast
    have "Suc j < length ps" "m0 + Suc j < length species"
      "b = bond_of (species ! (m0 + Suc j)) (int (m0 + Suc j))
             (image (vsub (ps ! Suc j) pos_atom) cell s)"
      using j by (simp_all add: ps)
    then show ?thesis using j(3) by blast
  qed
qed

lemma fill_all_sepcut_source:
  assumes "fill_all_sepcut cutoff_2 species specie_mask bond_mask bcn m0 table = Some filled"
    and "list_all2 (\<lambda>pos_n row. image_row (vsub pos_n pos_atom) cell sweep row) ps table"
    and "b \<in> set filled"
  shows "\<exists>j < length ps. m0 + j < length species \<and>
           (\<exists>s \<in> set (image_shifts sweep).
              b = bond_of (species ! (m0 + j)) (int (m0 + j))
                    (image (vsub (ps ! j) pos_atom) cell s))"
  using assms
proof (induction table arbitrary: m0 ps filled)
  case Nil
  then show ?case by simp
next
  case (Cons row rows)
  from Cons.prems(2) obtain p ps' where ps: "ps = p # ps'"
    and r0: "image_row (vsub p pos_atom) cell sweep row"
    and rs: "list_all2 (\<lambda>pos_n row. image_row (vsub pos_n pos_atom) cell sweep row) ps' rows"
    by (auto simp: list_all2_Cons2)
  from Cons.prems(1) obtain spec_curr rcut rest where
    sp: "py_get species (int m0) = Some spec_curr"
    and rest: "fill_all_sepcut cutoff_2 species specie_mask bond_mask bcn (Suc m0) rows
                 = Some rest"
    and f: "filled = fill_row rcut spec_curr (int m0) row @ rest"
    by (auto simp: bind_eq_Some_conv)
  have m0: "m0 < length species" "spec_curr = species ! m0"
    using sp by (auto simp: py_get_def Let_def split: if_splits)
  from Cons.prems(3) f consider "b \<in> set (fill_row rcut spec_curr (int m0) row)"
    | "b \<in> set rest" by auto
  then show ?case
  proof cases
    case 1
    from fill_row_source [OF r0 1] m0 show ?thesis
      by (auto simp: ps intro!: exI [of _ 0])
  next
    case 2
    from Cons.IH [OF rest rs 2] obtain j s where j: "j < length ps'" "Suc m0 + j < length species"
      "s \<in> set (image_shifts sweep)"
      "b = bond_of (species ! (Suc m0 + j)) (int (Suc m0 + j))
             (image (vsub (ps' ! j) pos_atom) cell s)"
      by blast
    have "Suc j < length ps" "m0 + Suc j < length species"
      "b = bond_of (species ! (m0 + Suc j)) (int (m0 + Suc j))
             (image (vsub (ps ! Suc j) pos_atom) cell s)"
      using j by (simp_all add: ps)
    then show ?thesis using j(3) by blast
  qed
qed

lemma permuted_nth:
  assumes "i < length p"
  shows "bond_positions_2 (permuted filled p) ! i = fst (snd (filled ! (p ! i)))"
    and "etypes (permuted filled p) ! i = fst (snd (snd (filled ! (p ! i))))"
    and "bond_indices (permuted filled p) ! i = snd (snd (snd (filled ! (p ! i))))"
    and "length (bond_indices (permuted filled p)) = length p"
  using assms by (simp_all add: permuted_def)

lemma get_2_body_arrays_source:
  assumes spec: "argsort_spec argsort"
    and r: "get_2_body_arrays argsort positions atom cell cutoff_2 species sweep = Some r"
    and i: "i < length (bond_indices r)"
  shows "\<exists>pos_atom m s. py_get positions atom = Some pos_atom \<and> m < length positions \<and>
           s \<in> set (image_shifts sweep) \<and>
           bond_positions_2 r ! i = image (vsub (positions ! m) pos_atom) cell s \<and>
           bond_indices r ! i = int8 (int m) \<and> etypes r ! i = int8 (species ! m)"
proof -
  from r obtain filled where f: "fill_2_body positions atom cell cutoff_2 species sweep = Some filled"
    and rp: "r = permuted filled (argsort (map (fst \<circ> fst) filled))"
    by (auto simp: get_2_body_arrays_def bind_eq_Some_conv sort_arrays_eq [OF spec])
  define p where "p = argsort (map (fst \<circ> fst) filled)"
  have ps: "set p = {..<length filled}"
    unfolding p_def using argsort_spec_set [OF spec, of "map (fst \<circ> fst) filled"] by simp
  have ip: "i < length p" using i by (simp add: rp p_def permuted_def)
  then have "p ! i \<in> set p" by simp
  then have mem: "filled ! (p ! i) \<in> set filled" using ps by simp
  from f obtain pos_atom table where pa: "py_get positions atom = Some pos_atom"
    and tb: "record_all cutoff_2 pos_atom cell sweep positions = Some table"
    and fa: "fill_all cutoff_2 species 0 table = Some filled"
    by (auto simp: fill_2_body_def bind_eq_Some_conv)
  from fill_all_source [OF fa record_all_rows [OF tb] mem]
  obtain m s where m: "m < length positions" "s \<in> set (image_shifts sweep)"
    "filled ! (p ! i) = bond_of (species ! m) (int m) (image (vsub (positions ! m) pos_atom) cell s)"
    by auto
  have "bond_positions_2 r ! i = image (vsub (positions ! m) pos_atom) cell s"
    "bond_indices r ! i = int8 (int m)" "etypes r ! i = int8 (species ! m)"
    using m(3) permuted_nth [OF ip, of filled]
    by (simp_all add: rp p_def [symmetric] bond_of_def)
  then show ?thesis using pa m(1,2) by blast
qed

lemma get_2_body_arrays_sepcut_source:
  assumes spec: "argsort_spec argsort"
    and r: "get_2_body_arrays_sepcut argsort positions atom cell cutoff_2 species sweep
              nspecie specie_mask bond_mask = Some r"
    and i: "i < length (bond_indices r)"
  shows "\<exists>pos_atom m s. py_get positions atom = Some pos_atom \<and> m < length positions \<and>
           s \<in> set (image_shifts sweep) \<and>
           bond_positions_2 r ! i = image (vsub (positions ! m) pos_atom) cell s \<and>
           bond_indices r ! i = int8 (int m) \<and> etypes r ! i = int8 (species ! m)"
proof -
  from r obtain filled where f: "fill_2_body_sepcut positions atom cell cutoff_2 species sweep
        nspecie specie_mask bond_mask = Some filled"
    and rp: "r = permuted filled (argsort (map (fst \<circ> fst) filled))"
    by (auto simp: get_2_body_arrays_sepcut_def bind_eq_Some_conv sort_arrays_eq [OF spec])
  define p where "p = argsort (map (fst \<circ> fst) filled)"
  have ps: "set p = {..<length filled}"
    unfolding p_def using argsort_spec_set [OF spec, of "map (fst \<circ> fst) filled"] by simp
  have ip: "i < length p" using i by (simp add: rp p_def permuted_def)
  then have "p ! i \<in> set p" by simp
  then have mem: "filled ! (p ! i) \<in> set filled" using ps by simp
  from f obtain pos_atom bcn table where pa: "py_get positions atom = Some pos_atom"
    and tb: "record_all_sepcut cutoff_2 species specie_mask bond_mask bcn pos_atom cell sweep 0
               positions = Some table"
    and fa: "fill_all_sepcut cutoff_2 species specie_mask bond_mask bcn 0 table = Some filled"
    by (auto simp: fill_2_body_sepcut_def bind_eq_Some_conv Let_def)
  from fill_all_sepcut_source [OF fa record_all_sepcut_rows [OF tb] mem]
  obtain m s where m: "m < length positions" "s \<in> set (image_shifts sweep)"
    "filled ! (p ! i) = bond_of (species ! m) (int m) (image (vsub (positions ! m) pos_atom) cell s)"
    by auto
  have "bond_positions_2 r ! i = image (vsub (positions ! m) pos_atom) cell s"
    "bond_indices r ! i = int8 (int m)" "etypes r ! i = int8 (species ! m)"
    using m(3) permuted_nth [OF ip, of filled]
    by (simp_all add: rp p_def [symmetric] bond_of_def)
  then show ?thesis using pa m(1,2) by blast
qed

lemma row_ok_stored:
  assumes "row_ok probe ind_3 m trips irow drow" and "m < ind_3"
  shows "trips = int8 (int (length (filter (accepted probe) [m + 1..<ind_3])))"
    and "j < length (filter (accepted probe) [m + 1..<ind_3]) \<Longrightarrow>
           irow ! (m + 1 + j) = int (filter (accepted probe) [m + 1..<ind_3] ! j)"
proof -
  define acc where "acc = filter (accepted probe) [m + 1..<ind_3]"
  define a where "a = m + 1"
  define r where "r = ind_3 - (m + 1) - length acc"
  have irow: "irow = replicate a (- 1) @ map int acc @ replicate r (- 1)"
    and tr: "trips = int8 (int (length acc))"
    using assms(1) by (simp_all add: row_ok_def Let_def acc_def a_def r_def)
  show "trips = int8 (int (length (filter (accepted probe) [m + 1..<ind_3])))"
    using tr by (simp add: acc_def)
  assume "j < length (filter (accepted probe) [m + 1..<ind_3])"
  then have j: "j < length acc" by (simp add: acc_def)
  then have k: "a + j < a + length acc + r" by simp
  have "irow ! (a + j) = (if a \<le> a + j \<and> a + j - a < length acc
                           then int (acc ! (a + j - a)) else - 1)"
    unfolding irow using k by (rule row_nth)
  then show "irow ! (m + 1 + j) = int (filter (accepted probe) [m + 1..<ind_3] ! j)"
    using j by (simp add: a_def acc_def)
qed

lemma scalar_rows_stored:
  assumes t: "get_3_body_arrays ba bp cutoff_3 = Some t"
    and m: "m < length (bond_array_3 t)"
  shows "let acc = filter (\<lambda>n. n < length bp \<and> norm3 (vsub (bp ! n) (bp ! m)) < cutoff_3)
                     [m + 1..<length (bond_array_3 t)] in
           triplet_counts t ! m = int8 (int (length acc)) \<and>
           (\<forall>j < length acc. cross_bond_inds t ! m ! (m + 1 + j) = int (acc ! j))"
proof -
  define i where "i = ind_3_of cutoff_3 ba"
  have ba3: "bond_array_3 t = take i ba"
    and rows: "cross_rows (row_probe_scalar (take i bp) cutoff_3) i [0..<i]
                 = Some (triplet_counts t, cross_bond_inds t, cross_bond_dists t)"
    using get_3_body_arrays_Some [OF t] by (simp_all add: i_def)
  have len: "length (bond_array_3 t) = i"
    using ind_3_le [of cutoff_3 ba] by (simp add: ba3 i_def)
  have mi: "m < i" using m len by simp
  obtain probe where rp: "row_probe_scalar (take i bp) cutoff_3 m = Some probe"
    and ok: "row_ok probe i m (triplet_counts t ! m) (cross_bond_inds t ! m)
               (cross_bond_dists t ! m)"
    using cross_rows_upt [OF rows] mi by blast
  obtain pos1 where p1: "py_get (take i bp) (int m) = Some pos1"
    and pr: "probe = probe_scalar (take i bp) cutoff_3 pos1"
    using row_probe_scalar_Some [OF rp] by blast
  have pos1: "pos1 = bp ! m"
    using p1 mi by (auto simp: py_get_def Let_def split: if_splits)
  have "filter (accepted probe) [m + 1..<i]
          = filter (\<lambda>n. n < length bp \<and> norm3 (vsub (bp ! n) (bp ! m)) < cutoff_3) [m + 1..<i]"
    by (rule filter_cong) (auto simp: pr accepted_scalar pos1)
  then show ?thesis
    using row_ok_stored [OF ok mi] by (simp add: Let_def len)
qed

lemma sepcut_rows_stored:
  assumes t: "get_3_body_arrays_sepcut ba bp ctype et cutoff_3 nspecie specie_mask cut3b_mask
                = Some t"
    and m: "m < length (bond_array_3 t)"
  shows "\<exists>acc. sorted_wrt (<) acc \<and> set acc \<subseteq> {m + 1..<length (bond_array_3 t)} \<and>
           triplet_counts t ! m = int8 (int (length acc)) \<and>
           (\<forall>j < length acc. cross_bond_inds t ! m ! (m + 1 + j) = int (acc ! j))"
proof -
  obtain bc cut3 where
    ba3: "bond_array_3 t = take (ind_3_of cut3 ba) ba"
    and rows0: "cross_rows (row_probe_sepcut ba (take (ind_3_of cut3 ba) bp) et cutoff_3 nspecie
                         specie_mask cut3b_mask (nspecie * bc))
               (ind_3_of cut3 ba) [0..<ind_3_of cut3 ba]
             = Some (triplet_counts t, cross_bond_inds t, cross_bond_dists t)"
    using get_3_body_arrays_sepcut_Some [OF t] by blast
  define i where "i = ind_3_of cut3 ba"
  have len: "length (bond_array_3 t) = i"
    using ind_3_le [of cut3 ba] by (simp add: ba3 i_def)
  have mi: "m < i" using m len by simp
  obtain probe where
    ok: "row_ok probe i m (triplet_counts t ! m) (cross_bond_inds t ! m)
               (cross_bond_dists t ! m)"
    using cross_rows_upt [OF rows0] mi by (auto simp: i_def)
  let ?acc = "filter (accepted probe) [m + 1..<i]"
  have "sorted_wrt (<) ?acc"
    by (intro sorted_wrt_filter) (simp add: sorted_wrt_upt)
  moreover have "set ?acc \<subseteq> {m + 1..<i}" by auto
  ultimately show ?thesis
    using row_ok_stored [OF ok mi] by (intro exI [of _ ?acc]) (simp add: len)
qed

text \<open>
  C10 (amended): every returned row \<open>i\<close> of either enumerator is an image of some atom \<open>m\<close>;
  the row holds \<open>int8 m\<close> in \<open>bond_indices\<close> and \<open>int8 (species[m])\<close> in \<open>etypes\<close>. Row \<open>m\<close>
  of the triplet table holds, from column \<open>m + 1\<close> on, the accepted third atoms in ascending
  order, as they are, and \<open>triplet_counts[m]\<close> is \<open>int8\<close> of their number. \<open>int8 v\<close> is
  \<open>(v + 128) mod 256 - 128\<close>, and it is \<open>v\<close> exactly when \<open>-128 \<le> v \<le> 127\<close>: for the
  non-negative indices, species codes and counts, exactly when \<open>v \<le> 127\<close>.
\<close>

theorem int8_storage:
  "(argsort_spec argsort \<longrightarrow>
    get_2_body_arrays argsort positions atom cell cutoff_2 species sweep = Some r \<longrightarrow>
    i < length (bond_indices r) \<longrightarrow>
      (\<exists>pos_atom m s. py_get positions atom = Some pos_atom \<and> m < length positions \<and>
         s \<in> set (image_shifts sweep) \<and>
         bond_positions_2 r ! i = image (vsub (positions ! m) pos_atom) cell s \<and>
         bond_indices r ! i = int8 (int m) \<and> etypes r ! i = int8 (species ! m))) \<and>
   (argsort_spec argsort \<longrightarrow>
    get_2_body_arrays_sepcut argsort positions' atom' cell' cutoffs_2 species' sweep'
        nspecie specie_mask bond_mask = Some r' \<longrightarrow>
    i' < length (bond_indices r') \<longrightarrow>
      (\<exists>pos_atom m s. py_get positions' atom' = Some pos_atom \<and> m < length positions' \<and>
         s \<in> set (image_shifts sweep') \<and>
         bond_positions_2 r' ! i' = image (vsub (positions' ! m) pos_atom) cell' s \<and>
         bond_indices r' ! i' = int8 (int m) \<and> etypes r' ! i' = int8 (species' ! m))) \<and>
   (get_3_body_arrays ba bp cutoff_3 = Some t \<longrightarrow> m3 < length (bond_array_3 t) \<longrightarrow>
      (let acc = filter (\<lambda>n. n < length bp \<and> norm3 (vsub (bp ! n) (bp ! m3)) < cutoff_3)
                   [m3 + 1..<length (bond_array_3 t)] in
         triplet_counts t ! m3 = int8 (int (length acc)) \<and>
         (\<forall>j < length acc. cross_bond_inds t ! m3 ! (m3 + 1 + j) = int (acc ! j)))) \<and>
   (get_3_body_arrays_sepcut ba' bp' ctype et cutoffs_3 nspecie' specie_mask' cut3b_mask = Some t'
      \<longrightarrow> m3' < length (bond_array_3 t') \<longrightarrow>
      (\<exists>acc. sorted_wrt (<) acc \<and> set acc \<subseteq> {m3' + 1..<length (bond_array_3 t')} \<and>
         triplet_counts t' ! m3' = int8 (int (length acc)) \<and>
         (\<forall>j < length acc. cross_bond_inds t' ! m3' ! (m3' + 1 + j) = int (acc ! j)))) \<and>
   int8 v = (v + 128) mod 256 - 128 \<and> (int8 v = v \<longleftrightarrow> - 128 \<le> v \<and> v \<le> 127)"
  using get_2_body_arrays_source [of argsort positions atom cell cutoff_2 species sweep r i]
    get_2_body_arrays_sepcut_source [of argsort positions' atom' cell' cutoffs_2 species' sweep'
      nspecie specie_mask bond_mask r' i']
    scalar_rows_stored [of ba bp cutoff_3 t m3]
    sepcut_rows_stored [of ba' bp' ctype et cutoffs_3 nspecie' specie_mask' cut3b_mask t' m3']
    int8_mod [of v] int8_eq_iff [of v]
  by (intro conjI impI) blast+

theorem int8_storage_witness:
  "argsort_spec stable_argsort \<and>
   get_2_body_arrays stable_argsort [(0, 0, 0), (1, 0, 0), (- 1, 0, 0)] 0 (cubic 10) 2 [1, 1, 1]
       [- 1, 0, 1]
     = Some \<lparr>bond_array_2 = [(1, (1, 0, 0)), (1, (- 1, 0, 0))],
             bond_positions_2 = [(1, 0, 0), (- 1, 0, 0)],
             etypes = [1, 1], bond_indices = [1, 2]\<rparr> \<and>
   get_2_body_arrays_sepcut stable_argsort [(0, 0, 0), (1, 0, 0), (- 1, 0, 0)] 0 (cubic 10) [2]
       [1, 1, 1] [- 1, 0, 1] 1 [0, 0] [0]
     = Some \<lparr>bond_array_2 = [(1, (1, 0, 0)), (1, (- 1, 0, 0))],
             bond_positions_2 = [(1, 0, 0), (- 1, 0, 0)],
             etypes = [1, 1], bond_indices = [1, 2]\<rparr> \<and>
   get_3_body_arrays [(1, (1, 0, 0)), (2, (1, 0, 0))] [(1, 0, 0), (2, 0, 0)] 2
     = Some \<lparr>bond_array_3 = [(1, (1, 0, 0)), (2, (1, 0, 0))],
             cross_bond_inds = [[- 1, 1], [- 1, - 1]],
             cross_bond_dists = [[0, 1], [0, 0]],
             triplet_counts = [1, 0]\<rparr> \<and>
   get_3_body_arrays_sepcut [(1, (1, 0, 0)), (2, (1, 0, 0))] [(1, 0, 0), (2, 0, 0)] 1 [1, 1] [3]
       1 [0, 0] [0]
     = Some \<lparr>bond_array_3 = [(1, (1, 0, 0)), (2, (1, 0, 0))],
             cross_bond_inds = [[- 1, 1], [- 1, - 1]],
             cross_bond_dists = [[0, 1], [0, 0]],
             triplet_counts = [1, 0]\<rparr> \<and>
   (\<exists>pos_atom m s. py_get [(0, 0, 0), (1, 0, 0), (- 1, 0, 0)] 0 = Some pos_atom \<and> m < 3 \<and>
      s \<in> set (image_shifts [- 1, 0, 1]) \<and>
      (1, 0, 0) = image (vsub ([(0, 0, 0), (1, 0, 0), (- 1, 0, 0)] ! m) pos_atom) (cubic 10) s \<and>
      1 = int8 (int m) \<and> 1 = int8 ([1, 1, 1] ! m)) \<and>
   (\<exists>acc :: nat list. sorted_wrt (<) acc \<and> set acc \<subseteq> {0 + 1..<2} \<and>
      1 = int8 (int (length acc))) \<and>
   int8 200 = (200 + 128) mod 256 - 128"
proof -
  let ?r = "\<lparr>bond_array_2 = [(1 :: real, (1 :: real, 0 :: real, 0 :: real)), (1, (- 1, 0, 0))],
             bond_positions_2 = [(1, 0, 0), (- 1, 0, 0)],
             etypes = [1, 1], bond_indices = [1, 2]\<rparr>"
  let ?t = "\<lparr>bond_array_3 = [(1 :: real, (1 :: real, 0 :: real, 0 :: real)), (2, (1, 0, 0))],
             cross_bond_inds = [[- 1, 1], [- 1, - 1]],
             cross_bond_dists = [[0, 1], [0, 0]],
             triplet_counts = [1, 0]\<rparr>"
  note st = int8_storage [of stable_argsort "[(0, 0, 0), (1, 0, 0), (- 1, 0, 0)]" 0 "cubic 10" 2
      "[1, 1, 1]" "[- 1, 0, 1]" ?r 0
      "[(0, 0, 0), (1, 0, 0), (- 1, 0, 0)]" 0 "cubic 10" "[2]" "[1, 1, 1]" "[- 1, 0, 1]"
      1 "[0, 0]" "[0]" ?r 0
      "[(1, (1, 0, 0)), (2, (1, 0, 0))]" "[(1, 0, 0), (2, 0, 0)]" 2 ?t 0
      "[(1, (1, 0, 0)), (2, (1, 0, 0))]" "[(1, 0, 0), (2, 0, 0)]" 1 "[1, 1]" "[3]" 1 "[0, 0]" "[0]"
      ?t 0 200]
  have a: "\<exists>pos_atom m s. py_get [(0, 0, 0), (1, 0, 0), (- 1, 0, 0)] 0 = Some pos_atom \<and> m < 3 \<and>
      s \<in> set (image_shifts [- 1, 0, 1]) \<and>
      (1, 0, 0) = image (vsub ([(0, 0, 0), (1, 0, 0), (- 1, 0, 0)] ! m) pos_atom) (cubic 10) s \<and>
      1 = int8 (int m) \<and> 1 = int8 ([1, 1, 1] ! m)"
    using st [THEN conjunct1, rule_format, OF argsort_spec_stable line_arrays_stable]
    by (simp add: numeral_3_eq_3)
  have b: "\<exists>acc :: nat list. sorted_wrt (<) acc \<and> set acc \<subseteq> {0 + 1..<2} \<and>
      1 = int8 (int (length acc))"
    using st [THEN conjunct2, THEN conjunct2, THEN conjunct2, THEN conjunct1, rule_format,
        OF chain_triplets_sepcut_wide]
    by (auto simp: numeral_2_eq_2)
  have c: "int8 200 = (200 + 128) mod 256 - 128"
    using st by blast
  show ?thesis
    using a b c argsort_spec_stable line_arrays_stable line_arrays_sepcut_stable chain_triplets
      chain_triplets_sepcut_wide
    by (intro conjI) assumption+
qed

subsection \<open>More than 128 neighbours\<close>

text \<open>
  On arrays of equal length the scalar triplet builder always returns. In the crowded
  environment with the 3-body cutoff 2 every pair of neighbours is accepted, so row \<open>m\<close> holds
  the indices \<open>m + 1, ..., 129\<close> and the count \<open>129 - m\<close>.
\<close>

lemma cross_row_total:
  assumes "\<And>n. n \<in> set ns \<Longrightarrow> probe n \<noteq> None"
    and "cnt + length ns \<le> length irow" and "cnt + length ns \<le> length drow"
  shows "cross_row probe ns cnt trips irow drow \<noteq> None"
  using assms
proof (induction ns arbitrary: cnt trips irow drow)
  case Nil
  then show ?case by simp
next
  case (Cons n ns)
  obtain d a where p: "probe n = Some (d, a)"
    using Cons.prems(1) [of n] by (cases "probe n") auto
  have rest: "\<And>k. k \<in> set ns \<Longrightarrow> probe k \<noteq> None"
    using Cons.prems(1) by simp
  show ?case
  proof (cases a)
    case True
    have "cross_row probe ns (Suc cnt) (trips + 1) (irow[cnt := int n]) (drow[cnt := d]) \<noteq> None"
      using Cons.prems(2,3) by (intro Cons.IH rest) simp_all
    then show ?thesis
      using p True Cons.prems(2,3) by simp
  next
    case False
    have "cross_row probe ns cnt trips irow drow \<noteq> None"
      using Cons.prems(2,3) by (intro Cons.IH rest) simp_all
    then show ?thesis
      using p False by simp
  qed
qed

lemma cross_rows_total:
  assumes "\<And>m. m \<in> set ms \<Longrightarrow>
             m < ind_3 \<and> (\<exists>probe. row_probe m = Some probe \<and> (\<forall>n < ind_3. probe n \<noteq> None))"
  shows "cross_rows row_probe ind_3 ms \<noteq> None"
  using assms
proof (induction ms)
  case Nil
  then show ?case by simp
next
  case (Cons m ms)
  obtain probe where m: "m < ind_3" and rp: "row_probe m = Some probe"
    and pr: "\<forall>n < ind_3. probe n \<noteq> None"
    using Cons.prems [of m] by auto
  have "cross_row probe [m + 1..<ind_3] (m + 1) 0 (replicate ind_3 (- 1)) (replicate ind_3 0)
          \<noteq> None"
    using m pr by (intro cross_row_total) simp_all
  moreover have "cross_rows row_probe ind_3 ms \<noteq> None"
    using Cons.prems by (intro Cons.IH) simp
  ultimately show ?case
    using rp by (auto simp: bind_eq_None_conv)
qed

lemma get_3_body_arrays_total:
  assumes "length ba \<le> length bp"
  shows "get_3_body_arrays ba bp c \<noteq> None"
proof -
  define i where "i = ind_3_of c ba"
  have i: "i \<le> length bp"
    using ind_3_le [of c ba] assms by (simp add: i_def)
  have "cross_rows (row_probe_scalar (take i bp) c) i [0..<i] \<noteq> None"
  proof (rule cross_rows_total)
    fix m assume "m \<in> set [0..<i]"
    then have m: "m < i" by simp
    have "row_probe_scalar (take i bp) c m = Some (probe_scalar (take i bp) c (bp ! m))"
      using m i by (simp add: row_probe_scalar_def py_get_nat)
    moreover have "\<forall>n < i. probe_scalar (take i bp) c (bp ! m) n \<noteq> None"
      using i by (simp add: probe_scalar_def py_get_nat Let_def)
    ultimately show "m < i \<and> (\<exists>probe. row_probe_scalar (take i bp) c m = Some probe \<and>
        (\<forall>n < i. probe n \<noteq> None))"
      using m by blast
  qed
  then show ?thesis
    by (auto simp: get_3_body_arrays_def Let_def ind_3_scalar' i_def bind_eq_None_conv)
qed

lemma crowd_nth:
  "i < 130 \<Longrightarrow> crowd_positions ! i = (1 + real i / 1000, 0, 0)"
  "i < 130 \<Longrightarrow> crowd_bonds ! i = (1 + real i / 1000, (1, 0, 0))"
  by (simp_all add: crowd_positions_def crowd_bonds_def del: upt_Suc)

lemma crowd_length: "length crowd_positions = 130" "length crowd_bonds = 130"
  by (simp_all add: crowd_positions_def crowd_bonds_def)

lemma crowd_ind_3: "ind_3_of 2 crowd_bonds = 130"
proof -
  have "\<forall>row \<in> set crowd_bonds. fst row \<le> 2"
    by (auto simp: crowd_bonds_def simp del: upt_Suc)
  then have "takeWhile (\<lambda>row. fst row \<le> 2) crowd_bonds = crowd_bonds"
    by (simp only: takeWhile_eq_all_conv)
  then show ?thesis
    by (simp only: ind_3_of_def crowd_length)
qed

lemma crowd_cross:
  assumes "m < 130" and "n < 130"
  shows "norm3 (vsub (crowd_positions ! n) (crowd_positions ! m)) < 2"
proof -
  have "\<bar>real n / 1000 - real m / 1000\<bar> < 2"
    using assms by (simp add: abs_if field_simps)
  then show ?thesis
    using assms by (simp add: crowd_nth norm3_axis del: norm3.simps)
qed

lemma crowd_row:
  assumes t: "get_3_body_arrays crowd_bonds crowd_positions 2 = Some t" and m: "m < 130"
  shows "triplet_counts t ! m = int8 (int (130 - (m + 1)))"
    and "j < 130 - (m + 1) \<Longrightarrow> cross_bond_inds t ! m ! (m + 1 + j) = int (m + 1 + j)"
proof -
  have len: "length (bond_array_3 t) = 130"
    using get_3_body_arrays_Some [OF t] by (simp add: crowd_ind_3 crowd_length)
  have all: "filter (\<lambda>n. n < length crowd_positions \<and>
                 norm3 (vsub (crowd_positions ! n) (crowd_positions ! m)) < 2) [m + 1..<130]
               = [m + 1..<130]"
    using m by (intro filter_True) (simp add: crowd_length crowd_cross)
  have st: "triplet_counts t ! m = int8 (int (length [m + 1..<130])) \<and>
           (\<forall>j < length [m + 1..<130].
              cross_bond_inds t ! m ! (m + 1 + j) = int ([m + 1..<130] ! j))"
    using scalar_rows_stored [OF t, of m] m unfolding len Let_def all by simp
  show "triplet_counts t ! m = int8 (int (130 - (m + 1)))"
    using st by simp
  assume "j < 130 - (m + 1)"
  then show "cross_bond_inds t ! m ! (m + 1 + j) = int (m + 1 + j)"
    using st by simp
qed

text \<open>
  C10 (as stated, refuted): the cross-bond table is not an 8-bit array. With 130 neighbours,
  \<open>cross_bond_inds[127, 128]\<close> is the index 128 itself and not \<open>int8 128 = -128\<close>, while the
  count 129 of row 0 is returned as \<open>int8 129 = -127\<close>.
\<close>

theorem cross_index_not_wrapped:
  "get_3_body_arrays crowd_bonds crowd_positions 2 \<noteq> None \<and>
   cross_bond_inds (the (get_3_body_arrays crowd_bonds crowd_positions 2)) ! 127 ! 128 = 128 \<and>
   cross_bond_inds (the (get_3_body_arrays crowd_bonds crowd_positions 2)) ! 127 ! 128
     \<noteq> int8 128 \<and>
   triplet_counts (the (get_3_body_arrays crowd_bonds crowd_positions 2)) ! 0 = int8 129 \<and>
   int8 128 = - 128 \<and> int8 129 = - 127"
proof -
  obtain t where t: "get_3_body_arrays crowd_bonds crowd_positions 2 = Some t"
    using get_3_body_arrays_total [of crowd_bonds crowd_positions 2]
    by (auto simp: crowd_length)
  have r127: "cross_bond_inds t ! 127 ! 128 = 128"
    using crowd_row(2) [OF t, of 127 0] by simp
  have r0: "triplet_counts t ! 0 = int8 129"
    using crowd_row(1) [OF t, of 0] by simp
  have "int8 129 = - 127" "int8 128 = - 128"
    by (simp_all add: int8_mod)
  then show ?thesis
    using t r127 r0 by simp
qed

section \<open>Two atoms in a large cell\<close>

subsection \<open>Images of a near neighbour\<close>

text \<open>
  In a cubic cell of side \<open>10000000\<close> a neighbour at distance at most \<open>3 / 2\<close> has exactly one
  image within the cutoff \<open>3\<close>, the unshifted one; every shifted image is at least \<open>3\<close> away.
\<close>

lemma norm3_ge_abs:
  "\<bar>x\<bar> \<le> norm3 (x, y, z)" "\<bar>y\<bar> \<le> norm3 (x, y, z)" "\<bar>z\<bar> \<le> norm3 (x, y, z)"
proof -
  have "sqrt (x * x) \<le> sqrt (x * x + y * y + z * z)"
    by (rule real_sqrt_le_mono) (simp add: add_nonneg_nonneg)
  then show "\<bar>x\<bar> \<le> norm3 (x, y, z)" by simp
  have "sqrt (y * y) \<le> sqrt (x * x + y * y + z * z)"
    by (rule real_sqrt_le_mono) (simp add: add_nonneg_nonneg)
  then show "\<bar>y\<bar> \<le> norm3 (x, y, z)" by simp
  have "sqrt (z * z) \<le> sqrt (x * x + y * y + z * z)"
    by (rule real_sqrt_le_mono) (simp add: add_nonneg_nonneg)
  then show "\<bar>z\<bar> \<le> norm3 (x, y, z)" by simp
qed

lemma shifted_far:
  fixes d :: real and s :: int
  assumes "\<bar>d\<bar> \<le> 3 / 2" and "s \<noteq> 0"
  shows "3 \<le> \<bar>d + real_of_int s * 10000000\<bar>"
proof -
  have "1 \<le> \<bar>real_of_int s\<bar>" using assms(2) by (simp add: abs_if)
  then have "10000000 \<le> \<bar>real_of_int s * 10000000\<bar>"
    by (simp add: abs_mult)
  then show ?thesis using assms(1) by linarith
qed

lemma image_cubic:
  "image (dx, dy, dz) (cubic a) (s1, s2, s3)
     = (dx + real_of_int s1 * a, dy + real_of_int s2 * a, dz + real_of_int s3 * a)"
  by (simp add: cubic_def)

lemma far_image:
  assumes "norm3 (dx, dy, dz) \<le> 3 / 2" and "s \<noteq> (0, 0, 0)"
  shows "\<not> qualifies 3 (image (dx, dy, dz) (cubic (10000000)) s)"
proof -
  obtain s1 s2 s3 where s: "s = (s1, s2, s3)" by (cases s) auto
  have d: "\<bar>dx\<bar> \<le> 3 / 2" "\<bar>dy\<bar> \<le> 3 / 2" "\<bar>dz\<bar> \<le> 3 / 2"
    using norm3_ge_abs [where x = dx and y = dy and z = dz] assms(1) by linarith+
  let ?im = "(dx + real_of_int s1 * 10000000, dy + real_of_int s2 * 10000000,
              dz + real_of_int s3 * 10000000)"
  from assms(2) s consider "s1 \<noteq> 0" | "s2 \<noteq> 0" | "s3 \<noteq> 0" by auto
  then have "3 \<le> norm3 ?im"
  proof cases
    case 1
    from shifted_far [OF d(1) 1] norm3_ge_abs(1) [where x = "dx + real_of_int s1 * 10000000"
        and y = "dy + real_of_int s2 * 10000000" and z = "dz + real_of_int s3 * 10000000"]
    show ?thesis by linarith
  next
    case 2
    from shifted_far [OF d(2) 2] norm3_ge_abs(2) [where x = "dx + real_of_int s1 * 10000000"
        and y = "dy + real_of_int s2 * 10000000" and z = "dz + real_of_int s3 * 10000000"]
    show ?thesis by linarith
  next
    case 3
    from shifted_far [OF d(3) 3] norm3_ge_abs(3) [where x = "dx + real_of_int s1 * 10000000"
        and y = "dy + real_of_int s2 * 10000000" and z = "dz + real_of_int s3 * 10000000"]
    show ?thesis by linarith
  qed
  then show ?thesis
    unfolding s image_cubic qualifies_def by linarith
qed

lemma near_image:
  assumes "norm3 d = 3 / 2"
  shows "qualifies 3 (image d (cubic (10000000)) (0, 0, 0))"
proof -
  obtain dx dy dz where d: "d = (dx, dy, dz)" by (cases d) auto
  have "image d (cubic (10000000)) (0, 0, 0) = d"
    by (simp add: d image_cubic)
  then show ?thesis using assms by (simp add: qualifies_def)
qed

lemma self_image:
  "\<not> qualifies 3 (image (0, 0, 0) (cubic (10000000)) s)"
proof (cases "s = (0, 0, 0)")
  case True
  then show ?thesis by (simp add: image_cubic qualifies_def)
next
  case False
  have "norm3 (0, 0, 0) \<le> 3 / 2" by simp
  from far_image [OF this False] show ?thesis .
qed

lemma filter_only_origin:
  "filter (\<lambda>s. s = (0, 0, 0)) (image_shifts [- 1, 0, 1]) = [(0, 0, 0)]"
  by (simp add: image_shifts_default)

lemma pair_neighbour:
  assumes "norm3 d = 3 / 2"
  shows "filter (\<lambda>s. qualifies 3 (image d (cubic (10000000)) s)) (image_shifts [- 1, 0, 1])
           = [(0, 0, 0)]"
proof -
  obtain dx dy dz where d: "d = (dx, dy, dz)" by (cases d) auto
  have le: "norm3 (dx, dy, dz) \<le> 3 / 2" using assms d by simp
  have "qualifies 3 (image d (cubic (10000000)) s) \<longleftrightarrow> s = (0, 0, 0)" for s
    using far_image [OF le, of s] near_image [OF assms] by (auto simp: d)
  then show ?thesis by (simp add: filter_only_origin)
qed

lemma pair_self:
  "filter (\<lambda>s. qualifies 3 (image (0, 0, 0) (cubic (10000000)) s)) ss = []"
  by (simp add: self_image)

lemma vsub_self: "vsub p p = (0, 0, 0)"
  by (cases p) simp

lemma norm3_vsub_commute: "norm3 (vsub p q) = norm3 (vsub q p)"
proof -
  obtain a b c x y z where "p = (a, b, c)" "q = (x, y, z)"
    by (cases p, cases q) auto
  moreover have "(a - x) * (a - x) = (x - a) * (x - a)" "(b - y) * (b - y) = (y - b) * (y - b)"
    "(c - z) * (c - z) = (z - c) * (z - c)" by (simp_all add: algebra_simps)
  ultimately show ?thesis by simp
qed

lemma argsort_spec_single:
  assumes "argsort_spec argsort"
  shows "argsort [k] = [0]"
proof -
  have "mset (argsort [k]) = mset [0..<length [k]]"
    using assms unfolding argsort_spec_def by blast
  then have "mset (argsort [k]) = {#0#}" by simp
  then show ?thesis by (simp add: mset_single_iff_right)
qed

subsection \<open>The environments of the two atoms\<close>

lemma pair_arrays_0:
  assumes "norm3 (vsub p1 p0) = 3 / 2" and "argsort_spec argsort"
  shows "get_2_body_arrays argsort [p0, p1] 0 (cubic (10000000)) 3 [sp, sp] [- 1, 0, 1]
           = Some \<lparr>bond_array_2 = [(3 / 2, vdiv (vsub p1 p0) (3 / 2))],
                   bond_positions_2 = [vsub p1 p0],
                   etypes = [int8 sp], bond_indices = [1]\<rparr>"
proof -
  have pa: "py_get [p0, p1] 0 = Some p0" by (simp add: py_get_def)
  have "fill_2_body [p0, p1] 0 (cubic (10000000)) 3 [sp, sp] [- 1, 0, 1]
          = Some [bond_of sp 1 (vsub p1 p0)]"
    using fill_2_body_closed [OF pa, of "[sp, sp]" "cubic (10000000)" 3 "[- 1, 0, 1]"]
      pair_neighbour [OF assms(1)] near_image [OF assms(1)]
    by (simp add: neighbours_of_def vsub_self pair_self upt_rec image_cubic
        del: image.simps)
       (cases "vsub p1 p0", simp add: image_cubic)
  then show ?thesis
    using assms
    by (simp add: get_2_body_arrays_def sort_arrays_eq argsort_spec_single permuted_def
        bond_of_def int8_small)
qed

lemma pair_arrays_1:
  assumes "norm3 (vsub p1 p0) = 3 / 2" and "argsort_spec argsort"
  shows "get_2_body_arrays argsort [p0, p1] 1 (cubic 10000000) 3 [sp, sp] [- 1, 0, 1]
           = Some \<lparr>bond_array_2 = [(3 / 2, vdiv (vsub p0 p1) (3 / 2))],
                   bond_positions_2 = [vsub p0 p1],
                   etypes = [int8 sp], bond_indices = [0]\<rparr>"
proof -
  have n: "norm3 (vsub p0 p1) = 3 / 2"
    using assms(1) norm3_vsub_commute [of p0 p1] by simp
  have pa: "py_get [p0, p1] 1 = Some p1" by (simp add: py_get_def)
  have "fill_2_body [p0, p1] 1 (cubic 10000000) 3 [sp, sp] [- 1, 0, 1]
          = Some [bond_of sp 0 (vsub p0 p1)]"
    using fill_2_body_closed [OF pa, of "[sp, sp]" "cubic 10000000" 3 "[- 1, 0, 1]"]
      pair_neighbour [OF n] near_image [OF n]
    by (simp add: neighbours_of_def vsub_self pair_self upt_rec image_cubic
        del: image.simps)
       (cases "vsub p0 p1", simp add: image_cubic)
  then show ?thesis
    using n assms(2)
    by (simp add: get_2_body_arrays_def sort_arrays_eq argsort_spec_single permuted_def
        bond_of_def int8_small)
qed

lemma single_row_triplets:
  "get_3_body_arrays [(r, u)] [d] cutoff_3
     = (if r > cutoff_3
        then Some \<lparr>bond_array_3 = [], cross_bond_inds = [], cross_bond_dists = [],
                    triplet_counts = []\<rparr>
        else Some \<lparr>bond_array_3 = [(r, u)], cross_bond_inds = [[- 1]],
                    cross_bond_dists = [[0]], triplet_counts = [0]\<rparr>)"
  by (simp add: get_3_body_arrays_def Let_def row_probe_scalar_def py_get_def int8_small)

text \<open>
  C2: two atoms of one species at distance \<open>3 / 2\<close> in a cubic cell of lattice constant
  \<open>10000000\<close>, 2-body cutoff \<open>3\<close>, sweep \<open>[-1, 0, 1]\<close>. For either central atom the
  enumerator returns exactly one row: distance \<open>3 / 2\<close>, direction the separation vector
  divided by its norm, and the other atom's index. The triplet builder on that one row returns,
  for every 3-body cutoff, a table without accepted edge: either no row at all, or one row with
  triplet count \<open>0\<close> and the sentinel \<open>-1\<close>.
\<close>

theorem two_atom_scenario:
  assumes "norm3 (vsub p1 p0) = 3 / 2" and "argsort_spec argsort"
  shows "get_2_body_arrays argsort [p0, p1] 0 (cubic 10000000) 3 [sp, sp] [- 1, 0, 1]
           = Some \<lparr>bond_array_2 = [(3 / 2, vdiv (vsub p1 p0) (norm3 (vsub p1 p0)))],
                   bond_positions_2 = [vsub p1 p0],
                   etypes = [int8 sp], bond_indices = [1]\<rparr> \<and>
         get_2_body_arrays argsort [p0, p1] 1 (cubic 10000000) 3 [sp, sp] [- 1, 0, 1]
           = Some \<lparr>bond_array_2 = [(3 / 2, vdiv (vsub p0 p1) (norm3 (vsub p0 p1)))],
                   bond_positions_2 = [vsub p0 p1],
                   etypes = [int8 sp], bond_indices = [0]\<rparr> \<and>
         get_3_body_arrays [(3 / 2, vdiv (vsub p1 p0) (norm3 (vsub p1 p0)))] [vsub p1 p0] cutoff_3
           = (if 3 / 2 > cutoff_3
              then Some \<lparr>bond_array_3 = [], cross_bond_inds = [], cross_bond_dists = [],
                          triplet_counts = []\<rparr>
              else Some \<lparr>bond_array_3 = [(3 / 2, vdiv (vsub p1 p0) (norm3 (vsub p1 p0)))],
                          cross_bond_inds = [[- 1]], cross_bond_dists = [[0]],
                          triplet_counts = [0]\<rparr>) \<and>
         get_3_body_arrays [(3 / 2, vdiv (vsub p0 p1) (norm3 (vsub p0 p1)))] [vsub p0 p1] cutoff_3
           = (if 3 / 2 > cutoff_3
              then Some \<lparr>bond_array_3 = [], cross_bond_inds = [], cross_bond_dists = [],
                          triplet_counts = []\<rparr>
              else Some \<lparr>bond_array_3 = [(3 / 2, vdiv (vsub p0 p1) (norm3 (vsub p0 p1)))],
                          cross_bond_inds = [[- 1]], cross_bond_dists = [[0]],
                          triplet_counts = [0]\<rparr>)"
proof -
  have n: "norm3 (vsub p0 p1) = 3 / 2"
    using assms(1) norm3_vsub_commute [of p0 p1] by simp
  show ?thesis
    using pair_arrays_0 [OF assms, of sp] pair_arrays_1 [OF assms, of sp]
    by (simp only: assms(1) n single_row_triplets)
qed

theorem two_atom_scenario_witness:
  "norm3 (vsub (3 / 2, 0, 0) (0, 0, 0)) = 3 / 2 \<and> argsort_spec stable_argsort \<and>
   get_2_body_arrays stable_argsort [(0, 0, 0), (3 / 2, 0, 0)] 0 (cubic 10000000) 3 [14, 14]
       [- 1, 0, 1]
     = Some \<lparr>bond_array_2 = [(3 / 2, (1, 0, 0))], bond_positions_2 = [(3 / 2, 0, 0)],
             etypes = [14], bond_indices = [1]\<rparr> \<and>
   get_2_body_arrays stable_argsort [(0, 0, 0), (3 / 2, 0, 0)] 1 (cubic 10000000) 3 [14, 14]
       [- 1, 0, 1]
     = Some \<lparr>bond_array_2 = [(3 / 2, (- 1, 0, 0))], bond_positions_2 = [(- (3 / 2), 0, 0)],
             etypes = [14], bond_indices = [0]\<rparr> \<and>
   get_3_body_arrays [(3 / 2, (1, 0, 0))] [(3 / 2, 0, 0)] 2
     = Some \<lparr>bond_array_3 = [(3 / 2, (1, 0, 0))], cross_bond_inds = [[- 1]],
             cross_bond_dists = [[0]], triplet_counts = [0]\<rparr>"
proof -
  have n: "norm3 (vsub (3 / 2, 0, 0) (0, 0, 0)) = 3 / 2"
    by (simp add: norm3_axis del: norm3.simps)
  show ?thesis
    using two_atom_scenario [OF n argsort_spec_stable, of 14 2]
    by (simp add: norm3_axis argsort_spec_stable int8_small del: norm3.simps)
qed

end
